theory Spec2Isabelle
  imports Main "HOL-Library.Word" "HOL-Library.Multiset"
begin

unbundle bit_operations_syntax

chapter \<open>The model\<close>

section \<open>Plan nodes (plan\_node\_defs.h)\<close>

text \<open>The enumeration \<open>PlanNodeType\<close>, constructor for constructor.\<close>

datatype PlanNodeType =
    INVALID | ABSTRACTPLAN
  | SEQSCAN | INDEXSCAN | HYBRIDSCAN | CSVSCAN
  | NESTLOOP | HASHJOIN
  | UPDATE | INSERT | DELETE | APPEND
  | DROP | CREATE | POPULATE_INDEX | ANALYZE | CREATE_FUNC
  | AGGREGATE | ORDERBY | PROJECTION | LIMIT | DISTINCT | HASH
  | EXPORT_EXTERNAL_FILE
  | MOCK

type_synonym OutputSchema = "string list"

text \<open>
  An \<open>AbstractPlanNode\<close> object: its address (the compiler hands \<open>&op\<close> to the
  translators, so the identity of the object matters), its type, its output schema (a
  pointer that may be null) and its children.
\<close>

datatype AbstractPlanNode =
  PlanNode (addr: nat) (GetPlanNodeType: PlanNodeType)
           (GetOutputSchema: "OutputSchema option") (children: "AbstractPlanNode list")

definition GetChildrenSize :: "AbstractPlanNode \<Rightarrow> nat" where
  "GetChildrenSize op = length (children op)"

text \<open>\<open>GetChild(i)\<close>: reading a child that does not exist is a failure, here \<open>None\<close>.\<close>

definition GetChild :: "AbstractPlanNode \<Rightarrow> nat \<Rightarrow> AbstractPlanNode option" where
  "GetChild op i = (if i < length (children op) then Some (children op ! i) else None)"

section \<open>The generated program (the part of the AST that compiler.cpp builds)\<close>

type_synonym Identifier = string

datatype BuiltinKind = Int32 | Nil

datatype TokenType = AMPERSAND

datatype Expr =
    BuiltinType BuiltinKind
  | IntLiteral int
  | MakeExpr Identifier
  | NewIdentifierExpr Identifier
  | NewUnaryOpExpr TokenType Expr
  | NewCallExpr Expr "Expr list"

datatype FieldDecl = MakeField Identifier Expr

text \<open>
  Statements: the three kinds \<open>GenMainFunction\<close> builds, the expression statement of
  \<open>GeneratePlan\<close>, and \<open>OperatorStmt\<close> for a statement emitted by an operator
  translator, which the compiler only passes along.
\<close>

datatype Stmt =
    DeclareVariable Identifier Expr "Expr option"
  | ExecCall Identifier
  | ReturnStmt Expr
  | NewExpressionStmt Expr
  | OperatorStmt string

text \<open>
  Top-level declarations: the struct made by \<open>MakeStruct\<close>, the function that
  \<open>FunctionBuilder::Finish\<close> returns (name, parameters, return type, body), and
  \<open>OperatorDecl\<close> for a helper declaration emitted by an operator translator.
\<close>

datatype Decl =
    MakeStruct Identifier "FieldDecl list"
  | FunctionDecl Identifier "FieldDecl list" Expr "Stmt list"
  | OperatorDecl string

text \<open>
  The names and parameter lists that \<open>CodeGen\<close> hands out (codegen.h is not among the
  sources, so they are parameters of the model).
\<close>

record CodeGen =
  GetStateVar :: Identifier
  GetStateType :: Identifier
  GetSetupFn :: Identifier
  GetTeardownFn :: Identifier
  GetMainFn :: Identifier
  MainParams :: "FieldDecl list"
  ExecParams :: "FieldDecl list"

section \<open>Translators and pipelines\<close>

text \<open>
  What \<open>TranslatorFactory\<close> returns: each translator remembers the plan node it was made
  for, and a top (or right) translator the bottom (or left) translator it reads from.
\<close>

datatype OperatorTranslator =
    BottomTranslator AbstractPlanNode
  | TopTranslator AbstractPlanNode OperatorTranslator
  | LeftTranslator AbstractPlanNode
  | RightTranslator AbstractPlanNode OperatorTranslator
  | RegularTranslator AbstractPlanNode
  | OutputTranslator

definition CreateBottomTranslator :: "AbstractPlanNode \<Rightarrow> OperatorTranslator" where
  "CreateBottomTranslator op = BottomTranslator op"

definition CreateTopTranslator :: "AbstractPlanNode \<Rightarrow> OperatorTranslator \<Rightarrow> OperatorTranslator" where
  "CreateTopTranslator op bottom = TopTranslator op bottom"

definition CreateLeftTranslator :: "AbstractPlanNode \<Rightarrow> OperatorTranslator" where
  "CreateLeftTranslator op = LeftTranslator op"

definition CreateRightTranslator :: "AbstractPlanNode \<Rightarrow> OperatorTranslator \<Rightarrow> OperatorTranslator" where
  "CreateRightTranslator op left = RightTranslator op left"

definition CreateRegularTranslator :: "AbstractPlanNode \<Rightarrow> OperatorTranslator" where
  "CreateRegularTranslator op = RegularTranslator op"

text \<open>
  Modelled from the spec: \<open>Pipeline\<close> (pipeline.h is not among the sources) is ``an
  ordered list of operator translators, bottom to top''; \<open>Add\<close> puts a translator at its
  end.
\<close>

type_synonym Pipeline = "OperatorTranslator list"

definition Add :: "Pipeline \<Rightarrow> OperatorTranslator \<Rightarrow> Pipeline" where
  "Add pipeline translator = pipeline @ [translator]"

section \<open>Compiler (compiler.cpp)\<close>

text \<open>
  \<open>MakePipelines(op, curr_pipeline)\<close> changes the current pipeline and the member
  \<open>pipelines_\<close>; the model takes both and returns both. A pipeline is not touched any
  more once it has been pushed, so a list of values stands for the vector of pointers.
\<close>

fun MakePipelines ::
  "AbstractPlanNode \<Rightarrow> Pipeline \<times> Pipeline list \<Rightarrow> (Pipeline \<times> Pipeline list) option" where
  "MakePipelines (PlanNode a ty sch cs) (curr_pipeline, pipelines) =
    (if ty = AGGREGATE \<or> ty = ORDERBY then
       (let bottom_translator = CreateBottomTranslator (PlanNode a ty sch cs);
            top_translator = CreateTopTranslator (PlanNode a ty sch cs) bottom_translator;
            curr_pipeline = Add curr_pipeline top_translator
        in case cs of
             [] \<Rightarrow> None
           | c0 # _ \<Rightarrow>
               (case MakePipelines c0 ([], pipelines) of
                  None \<Rightarrow> None
                | Some (next_pipeline, pipelines) \<Rightarrow>
                    Some (curr_pipeline, pipelines @ [Add next_pipeline bottom_translator])))
     else if ty = HASHJOIN then
       (let left_translator = CreateLeftTranslator (PlanNode a ty sch cs);
            right_translator = CreateRightTranslator (PlanNode a ty sch cs) left_translator
        in case cs of
             c0 # c1 # _ \<Rightarrow>
               (case MakePipelines c0 ([], pipelines) of
                  None \<Rightarrow> None
                | Some (next_pipeline, pipelines) \<Rightarrow>
                    (case MakePipelines c1
                            (curr_pipeline, pipelines @ [Add next_pipeline left_translator]) of
                       None \<Rightarrow> None
                     | Some (curr_pipeline, pipelines) \<Rightarrow>
                         Some (Add curr_pipeline right_translator, pipelines)))
           | _ \<Rightarrow> None)
     else if ty = NESTLOOP then
       (let left_translator = CreateLeftTranslator (PlanNode a ty sch cs);
            right_translator = CreateRightTranslator (PlanNode a ty sch cs) left_translator
        in case cs of
             c0 # c1 # _ \<Rightarrow>
               (case MakePipelines c0 (curr_pipeline, pipelines) of
                  None \<Rightarrow> None
                | Some (curr_pipeline, pipelines) \<Rightarrow>
                    (case MakePipelines c1 (Add curr_pipeline left_translator, pipelines) of
                       None \<Rightarrow> None
                     | Some (curr_pipeline, pipelines) \<Rightarrow>
                         Some (Add curr_pipeline right_translator, pipelines)))
           | _ \<Rightarrow> None)
     else
       (let translator = CreateRegularTranslator (PlanNode a ty sch cs)
        in case cs of
             [] \<Rightarrow> Some (Add curr_pipeline translator, pipelines)
           | c0 # _ \<Rightarrow>
               (case MakePipelines c0 (curr_pipeline, pipelines) of
                  None \<Rightarrow> None
                | Some (curr_pipeline, pipelines) \<Rightarrow>
                    Some (Add curr_pipeline translator, pipelines))))"


text \<open>
  The constructor \<open>Compiler::Compiler\<close>: the value is the member \<open>pipelines_\<close> once the
  constructor is done, the main pipeline last.
\<close>

definition Compiler :: "AbstractPlanNode \<Rightarrow> Pipeline list option" where
  "Compiler plan =
    (case MakePipelines plan ([], []) of
       None \<Rightarrow> None
     | Some (main_pipeline, pipelines) \<Rightarrow>
         (let main_pipeline =
                (if GetOutputSchema plan \<noteq> None then Add main_pipeline OutputTranslator
                 else main_pipeline)
          in Some (pipelines @ [main_pipeline])))"

text \<open>
  What the compiler asks of a pipeline (pipeline.h is not among the sources, so the three
  member functions are parameters): \<open>Initialize\<close> adds the pipeline's declarations,
  state fields, setup and teardown statements to the four vectors it is given,
  \<open>Produce\<close> returns the pipeline's function for an index, \<open>GetPipelineName\<close> the name
  of that function.
\<close>

type_synonym GenVectors = "Decl list \<times> FieldDecl list \<times> Stmt list \<times> Stmt list"

record PipelineOps =
  Initialize :: "Pipeline \<Rightarrow> GenVectors \<Rightarrow> GenVectors"
  Produce :: "Pipeline \<Rightarrow> 32 word \<Rightarrow> Decl"
  GetPipelineName :: "Pipeline \<Rightarrow> Identifier"

definition GenStateStruct :: "CodeGen \<Rightarrow> Decl list \<Rightarrow> FieldDecl list \<Rightarrow> Decl list" where
  "GenStateStruct cg top_level flds =
    (let dummy_name = ''DUMMY'';
         dummy_type = BuiltinType Int32;
         flds = flds @ [MakeField dummy_name dummy_type]
     in top_level @ [MakeStruct (GetStateType cg) flds])"

definition GenHelperStructsAndFunctions :: "Decl list \<Rightarrow> Decl list \<Rightarrow> Decl list" where
  "GenHelperStructsAndFunctions top_level decls = top_level @ decls"

definition GenFunction :: "CodeGen \<Rightarrow> Decl list \<Rightarrow> Identifier \<Rightarrow> Stmt list \<Rightarrow> Decl list" where
  "GenFunction cg top_level fn_name stmts =
    (let params = ExecParams cg;
         ret_type = BuiltinType Nil
     in top_level @ [FunctionDecl fn_name params ret_type stmts])"

definition GenMainFunction :: "CodeGen \<Rightarrow> PipelineOps \<Rightarrow> Pipeline list \<Rightarrow> Decl" where
  "GenMainFunction cg ops pipelines =
    (let fn_name = GetMainFn cg;
         params = MainParams cg;
         ret_type = BuiltinType Int32;
         state = GetStateVar cg;
         state_type = MakeExpr (GetStateType cg);
         builder = [DeclareVariable state state_type None];
         builder = builder @ [ExecCall (GetSetupFn cg)];
         builder = builder @ map (\<lambda>pipeline. ExecCall (GetPipelineName ops pipeline)) pipelines;
         builder = builder @ [ExecCall (GetTeardownFn cg)];
         builder = builder @ [ReturnStmt (IntLiteral 37)]
     in FunctionDecl fn_name params ret_type builder)"

text \<open>\<open>Compiler::Compile\<close>: the value is the list of top-level declarations handed to
  \<open>codegen_.Compile\<close>.\<close>

definition Compile :: "CodeGen \<Rightarrow> PipelineOps \<Rightarrow> Pipeline list \<Rightarrow> Decl list" where
  "Compile cg ops pipelines =
    (case fold (Initialize ops) pipelines ([], [], [], []) of
       (decls, state_fields, setup_stmts, teardown_stmts) \<Rightarrow>
         (let top_level = [];
              top_level = GenStateStruct cg top_level state_fields;
              top_level = GenHelperStructsAndFunctions top_level decls;
              top_level = GenFunction cg top_level (GetSetupFn cg) setup_stmts;
              top_level = GenFunction cg top_level (GetTeardownFn cg) teardown_stmts;
              top_level = top_level @
                map (\<lambda>(pipeline, pipeline_idx). Produce ops pipeline (of_nat pipeline_idx))
                    (zip pipelines [0 ..< length pipelines]);
              top_level = top_level @ [GenMainFunction cg ops pipelines]
          in top_level))"

section \<open>CompilationContext (compilation\_context.cpp)\<close>

text \<open>
  The names a \<open>Query\<close> hands out and the type of its query state (query.h and
  query\_state.h are not among the sources, so they are parameters).
\<close>

record Query =
  GetQueryStateName :: Identifier
  GetQueryInitName :: Identifier
  GetQueryProduceName :: Identifier
  GetQueryTeardownName :: Identifier
  GetQueryStateType :: Expr

text \<open>
  Step 5 of \<open>GeneratePlan\<close>, the main function of this older code path: it declares the
  query state, calls the init, produce and teardown functions on its address, and
  returns 0.
\<close>

definition GeneratePlan_main :: "Query \<Rightarrow> Decl" where
  "GeneratePlan_main query =
    (let qs_type = GetQueryStateType query;
         qs_id = GetQueryStateName query;
         init_id = GetQueryInitName query;
         produce_id = GetQueryProduceName query;
         teardown_id = GetQueryTeardownName query;
         main_id = ''main'';
         main_fn = [DeclareVariable qs_id qs_type None];
         init_params = [NewUnaryOpExpr AMPERSAND (NewIdentifierExpr qs_id)];
         main_fn = main_fn @
           [NewExpressionStmt (NewCallExpr (NewIdentifierExpr init_id) init_params)];
         prod_params = [NewUnaryOpExpr AMPERSAND (NewIdentifierExpr qs_id)];
         main_fn = main_fn @
           [NewExpressionStmt (NewCallExpr (NewIdentifierExpr produce_id) prod_params)];
         teardown_params = [NewUnaryOpExpr AMPERSAND (NewIdentifierExpr qs_id)];
         main_fn = main_fn @
           [NewExpressionStmt (NewCallExpr (NewIdentifierExpr teardown_id) teardown_params)];
         return_stmt = ReturnStmt (IntLiteral 0);
         main_fn = main_fn @ [return_stmt]
     in FunctionDecl main_id [] (BuiltinType Int32) main_fn)"

text \<open>The body of a generated function, and the functions it calls, in order.\<close>

fun function_body :: "Decl \<Rightarrow> Stmt list" where
  "function_body (FunctionDecl _ _ _ body) = body"
| "function_body _ = []"

fun called :: "Stmt \<Rightarrow> Identifier list" where
  "called (ExecCall f) = [f]"
| "called _ = []"

section \<open>Bytecodes (bytecodes.h)\<close>

text \<open>
  The macros that build the enumeration. \<open>BYTECODE_LIST(F)\<close> applies \<open>F\<close> to every entry
  of the master list; the two macros the enumeration uses, \<open>DECLARE_OP\<close> and
  \<open>COUNT_OP\<close>, look at the name of the instruction only, so an entry is its name.
\<close>

definition CREATE_FOR_INT_TYPES :: "(string \<Rightarrow> 'a) \<Rightarrow> string \<Rightarrow> 'a list" where
  "CREATE_FOR_INT_TYPES F op =
     [F (op @ ''_i8''), F (op @ ''_i16''), F (op @ ''_i32''), F (op @ ''_i64''),
      F (op @ ''_u8''), F (op @ ''_u16''), F (op @ ''_u32''), F (op @ ''_u64'')]"

definition BYTECODE_LIST :: "(string \<Rightarrow> 'a) \<Rightarrow> 'a list" where
  "BYTECODE_LIST F =
     CREATE_FOR_INT_TYPES F ''Add'' @
     CREATE_FOR_INT_TYPES F ''Neg'' @
     CREATE_FOR_INT_TYPES F ''Sub'' @
     CREATE_FOR_INT_TYPES F ''Mul'' @
     CREATE_FOR_INT_TYPES F ''Div'' @
     CREATE_FOR_INT_TYPES F ''Rem'' @
     CREATE_FOR_INT_TYPES F ''BitAnd'' @
     CREATE_FOR_INT_TYPES F ''BitOr'' @
     CREATE_FOR_INT_TYPES F ''BitXor'' @
     CREATE_FOR_INT_TYPES F ''BitNeg'' @
     CREATE_FOR_INT_TYPES F ''GreaterThan'' @
     CREATE_FOR_INT_TYPES F ''GreaterThanEqual'' @
     CREATE_FOR_INT_TYPES F ''Equal'' @
     CREATE_FOR_INT_TYPES F ''LessThan'' @
     CREATE_FOR_INT_TYPES F ''LessThanEqual'' @
     CREATE_FOR_INT_TYPES F ''NotEqual'' @
     [F ''Not'', F ''Jump'', F ''JumpIfTrue'', F ''JumpIfFalse'', F ''IsNullPtr'',
      F ''IsNotNullPtr'', F ''Deref1'', F ''Deref2'', F ''Deref4'', F ''Deref8'', F ''DerefN'',
      F ''Assign1'', F ''Assign2'', F ''Assign4'', F ''Assign8'', F ''AssignImm1'',
      F ''AssignImm2'', F ''AssignImm4'', F ''AssignImm8'', F ''AssignImm4F'',
      F ''AssignImm8F'', F ''Lea'', F ''LeaScaled'', F ''Call'', F ''Return'',
      F ''ExecutionContextGetMemoryPool'', F ''ThreadStateContainerInit'',
      F ''ThreadStateContainerIterate'', F ''ThreadStateContainerReset'',
      F ''ThreadStateContainerFree'', F ''TableVectorIteratorInit'',
      F ''TableVectorIteratorPerformInit'', F ''TableVectorIteratorNext'',
      F ''TableVectorIteratorFree'', F ''TableVectorIteratorGetPCI'', F ''ParallelScanTable'',
      F ''PCIIsFiltered'', F ''PCIHasNext'', F ''PCIHasNextFiltered'', F ''PCIAdvance'',
      F ''PCIAdvanceFiltered'', F ''PCIMatch'', F ''PCIReset'', F ''PCIResetFiltered'',
      F ''PCIGetSmallInt'', F ''PCIGetInteger'', F ''PCIGetBigInt'', F ''PCIGetReal'',
      F ''PCIGetDouble'', F ''PCIGetDecimal'', F ''PCIGetDate'', F ''PCIGetVarlen'',
      F ''PCIGetSmallIntNull'', F ''PCIGetIntegerNull'', F ''PCIGetBigIntNull'',
      F ''PCIGetRealNull'', F ''PCIGetDoubleNull'', F ''PCIGetDecimalNull'',
      F ''PCIGetDateNull'', F ''PCIGetVarlenNull'', F ''PCIFilterEqual'',
      F ''PCIFilterGreaterThan'', F ''PCIFilterGreaterThanEqual'', F ''PCIFilterLessThan'',
      F ''PCIFilterLessThanEqual'', F ''PCIFilterNotEqual'', F ''FilterManagerInit'',
      F ''FilterManagerStartNewClause'', F ''FilterManagerInsertFlavor'',
      F ''FilterManagerFinalize'', F ''FilterManagerRunFilters'', F ''FilterManagerFree'',
      F ''ForceBoolTruth'', F ''InitBool'', F ''InitInteger'', F ''InitReal'', F ''InitDate'',
      F ''InitString'', F ''InitVarlen'', F ''LessThanInteger'', F ''LessThanEqualInteger'',
      F ''GreaterThanInteger'', F ''GreaterThanEqualInteger'', F ''EqualInteger'',
      F ''NotEqualInteger'', F ''LessThanReal'', F ''LessThanEqualReal'',
      F ''GreaterThanReal'', F ''GreaterThanEqualReal'', F ''EqualReal'', F ''NotEqualReal'',
      F ''LessThanString'', F ''LessThanEqualString'', F ''GreaterThanString'',
      F ''GreaterThanEqualString'', F ''EqualString'', F ''NotEqualString'', F ''AbsInteger'',
      F ''AbsReal'', F ''ValIsNull'', F ''ValIsNotNull'', F ''AddInteger'', F ''SubInteger'',
      F ''MulInteger'', F ''DivInteger'', F ''RemInteger'', F ''AddReal'', F ''SubReal'',
      F ''MulReal'', F ''DivReal'', F ''RemReal'', F ''HashInt'', F ''HashReal'',
      F ''HashString'', F ''HashCombine'', F ''AggregationHashTableInit'',
      F ''AggregationHashTableInsert'', F ''AggregationHashTableLookup'',
      F ''AggregationHashTableProcessBatch'', F ''AggregationHashTableTransferPartitions'',
      F ''AggregationHashTableParallelPartitionedScan'', F ''AggregationHashTableFree'',
      F ''AggregationHashTableIteratorInit'', F ''AggregationHashTableIteratorHasNext'',
      F ''AggregationHashTableIteratorNext'', F ''AggregationHashTableIteratorGetRow'',
      F ''AggregationHashTableIteratorFree'',
      F ''AggregationOverflowPartitionIteratorHasNext'',
      F ''AggregationOverflowPartitionIteratorNext'',
      F ''AggregationOverflowPartitionIteratorGetHash'',
      F ''AggregationOverflowPartitionIteratorGetRow'', F ''CountAggregateInit'',
      F ''CountAggregateAdvance'', F ''CountAggregateMerge'', F ''CountAggregateReset'',
      F ''CountAggregateGetResult'', F ''CountAggregateFree'', F ''CountStarAggregateInit'',
      F ''CountStarAggregateAdvance'', F ''CountStarAggregateMerge'',
      F ''CountStarAggregateReset'', F ''CountStarAggregateGetResult'',
      F ''CountStarAggregateFree'', F ''IntegerSumAggregateInit'',
      F ''IntegerSumAggregateAdvance'', F ''IntegerSumAggregateMerge'',
      F ''IntegerSumAggregateReset'', F ''IntegerSumAggregateGetResult'',
      F ''IntegerSumAggregateFree'', F ''IntegerMaxAggregateInit'',
      F ''IntegerMaxAggregateAdvance'', F ''IntegerMaxAggregateMerge'',
      F ''IntegerMaxAggregateReset'', F ''IntegerMaxAggregateGetResult'',
      F ''IntegerMaxAggregateFree'', F ''IntegerMinAggregateInit'',
      F ''IntegerMinAggregateAdvance'', F ''IntegerMinAggregateMerge'',
      F ''IntegerMinAggregateReset'', F ''IntegerMinAggregateGetResult'',
      F ''IntegerMinAggregateFree'', F ''AvgAggregateInit'', F ''AvgAggregateAdvance'',
      F ''AvgAggregateMerge'', F ''AvgAggregateReset'', F ''AvgAggregateGetResult'',
      F ''AvgAggregateFree'', F ''RealSumAggregateInit'', F ''RealSumAggregateAdvance'',
      F ''RealSumAggregateMerge'', F ''RealSumAggregateReset'',
      F ''RealSumAggregateGetResult'', F ''RealSumAggregateFree'', F ''RealMaxAggregateInit'',
      F ''RealMaxAggregateAdvance'', F ''RealMaxAggregateMerge'', F ''RealMaxAggregateReset'',
      F ''RealMaxAggregateGetResult'', F ''RealMaxAggregateFree'', F ''RealMinAggregateInit'',
      F ''RealMinAggregateAdvance'', F ''RealMinAggregateMerge'', F ''RealMinAggregateReset'',
      F ''RealMinAggregateGetResult'', F ''RealMinAggregateFree'', F ''JoinHashTableInit'',
      F ''JoinHashTableAllocTuple'', F ''JoinHashTableIterInit'',
      F ''JoinHashTableIterHasNext'', F ''JoinHashTableIterGetRow'',
      F ''JoinHashTableIterClose'', F ''JoinHashTableBuild'', F ''JoinHashTableBuildParallel'',
      F ''JoinHashTableFree'', F ''SorterInit'', F ''SorterAllocTuple'',
      F ''SorterAllocTupleTopK'', F ''SorterAllocTupleTopKFinish'', F ''SorterSort'',
      F ''SorterSortParallel'', F ''SorterSortTopKParallel'', F ''SorterFree'',
      F ''SorterIteratorInit'', F ''SorterIteratorGetRow'', F ''SorterIteratorHasNext'',
      F ''SorterIteratorNext'', F ''SorterIteratorFree'', F ''OutputAlloc'',
      F ''OutputAdvance'', F ''OutputFinalize'', F ''OutputSetNull'', F ''Insert'',
      F ''IndexIteratorInit'', F ''IndexIteratorScanKey'', F ''IndexIteratorFree'',
      F ''IndexIteratorAdvance'', F ''IndexIteratorGetSmallInt'',
      F ''IndexIteratorGetInteger'', F ''IndexIteratorGetBigInt'',
      F ''IndexIteratorGetDecimal'', F ''IndexIteratorGetReal'', F ''IndexIteratorGetDouble'',
      F ''IndexIteratorGetSmallIntNull'', F ''IndexIteratorGetIntegerNull'',
      F ''IndexIteratorGetBigIntNull'', F ''IndexIteratorGetDecimalNull'',
      F ''IndexIteratorGetRealNull'', F ''IndexIteratorGetDoubleNull'', F ''Pi'', F ''E'',
      F ''Acos'', F ''Asin'', F ''Atan'', F ''Atan2'', F ''Cos'', F ''Cot'', F ''Sin'',
      F ''Tan'', F ''Cosh'', F ''Tanh'', F ''Sinh'', F ''Sqrt'', F ''Cbrt'', F ''Exp'',
      F ''Ceil'', F ''Floor'', F ''Truncate'', F ''Ln'', F ''Log2'', F ''Log10'', F ''Sign'',
      F ''Radians'', F ''Degrees'', F ''Round'', F ''RoundUpTo'', F ''Log'', F ''Pow'',
      F ''Left'', F ''Length'', F ''Lower'', F ''LPad'', F ''LTrim'', F ''Repeat'',
      F ''Reverse'', F ''Right'', F ''RPad'', F ''RTrim'', F ''SplitPart'', F ''Substring'',
      F ''Trim'', F ''Upper'']"

text \<open>
  \<open>enum class Bytecode : u32\<close>. \<open>DECLARE_OP\<close> declares one enumerator per entry, and
  an enumerator without an initialiser has the value of its position, so the declared
  opcodes are the names paired with 0, 1, 2, ... The last enumerator \<open>Last\<close> is
  initialised with \<open>-1 BYTECODE_LIST(COUNT_OP)\<close>, that is \<open>-1 +1 +1 ... +1\<close>.
\<close>

definition DECLARE_OP :: "string \<Rightarrow> string" where
  "DECLARE_OP inst = inst"

definition COUNT_OP :: "string \<Rightarrow> int" where
  "COUNT_OP inst = 1"

definition Last :: "32 word" where
  "Last = of_int (-1 + sum_list (BYTECODE_LIST COUNT_OP))"

definition Bytecode_opcodes :: "(string \<times> 32 word) list" where
  "Bytecode_opcodes =
     (let insts = BYTECODE_LIST DECLARE_OP in zip insts (map of_nat [0 ..< length insts]))"

definition Bytecode :: "(string \<times> 32 word) list" where
  "Bytecode = Bytecode_opcodes @ [(''Last'', Last)]"

definition kBytecodeCount :: "32 word" where
  "kBytecodeCount = Last + 1"

section \<open>TableVectorIterator (table\_vector\_iterator.cpp)\<close>

text \<open>
  The storage layer is not among the sources, so a table is what the iterator uses of
  it: its \<open>begin()\<close> and \<open>end()\<close> slot iterators, \<open>Scan\<close>, which advances the slot
  iterator it is given and fills the projected-columns buffer, and the initialiser of a
  projected-columns buffer for a list of column oids and a vector size. The execution
  context gives the catalog lookup and the transaction.
\<close>

record ('it, 'pc, 'txn) SqlTable =
  table_begin :: 'it
  table_end :: 'it
  Scan :: "'txn \<Rightarrow> 'it \<Rightarrow> 'pc \<Rightarrow> 'it \<times> 'pc"
  InitializerForProjectedColumns :: "32 word list \<Rightarrow> nat \<Rightarrow> 'pc"

record ('it, 'pc, 'txn) ExecutionContext =
  GetTable :: "32 word \<Rightarrow> ('it, 'pc, 'txn) SqlTable option"
  GetTxn :: 'txn

text \<open>
  The members of the iterator (named as in the class, without the trailing underscore).
  A pointer that may be null is an option; \<open>pci\<close> holds
  the buffer the projected-columns iterator points at.
\<close>

record ('it, 'pc, 'txn) TableVectorIterator =
  table_oid :: "32 word"
  exec_ctx :: "('it, 'pc, 'txn) ExecutionContext"
  col_oids :: "32 word list"
  table :: "('it, 'pc, 'txn) SqlTable option"
  projected_columns :: "'pc option"
  initialized :: bool
  iter :: "'it option"
  pci :: "'pc option"

datatype tvi_error = TableMustExist | NoColOid | NullPointer

text \<open>
  The constructor sets \<open>table_oid_\<close> and \<open>exec_ctx_\<close>; the other members keep the
  defaults of the class declaration (not among the sources): null pointers, no column
  oids, \<open>initialized = false\<close>.
\<close>

definition TableVectorIterator_new ::
  "32 word \<Rightarrow> ('it, 'pc, 'txn) ExecutionContext \<Rightarrow> ('it, 'pc, 'txn) TableVectorIterator" where
  "TableVectorIterator_new oid ctx =
    \<lparr>table_oid = oid, exec_ctx = ctx, col_oids = [], table = None,
     projected_columns = None, initialized = False, iter = None, pci = None\<rparr>"

text \<open>\<open>Init\<close>; the two assertions are failures. \<open>kDefaultVectorSize\<close> is a parameter.\<close>

definition Init ::
  "nat \<Rightarrow> ('it, 'pc, 'txn) TableVectorIterator
     \<Rightarrow> tvi_error + bool \<times> ('it, 'pc, 'txn) TableVectorIterator" where
  "Init kDefaultVectorSize tvi =
    (case GetTable (exec_ctx tvi) (table_oid tvi) of
       None \<Rightarrow> Inl TableMustExist
     | Some tbl \<Rightarrow>
         if col_oids tvi = [] then Inl NoColOid
         else
           (let pc = InitializerForProjectedColumns tbl (col_oids tvi) kDefaultVectorSize
            in Inr (True,
                 tvi\<lparr>table := Some tbl, projected_columns := Some pc,
                     initialized := True, iter := Some (table_begin tbl)\<rparr>)))"

text \<open>\<open>Advance\<close>; following a null pointer is a failure.\<close>

definition Advance ::
  "('it, 'pc, 'txn) TableVectorIterator
     \<Rightarrow> tvi_error + bool \<times> ('it, 'pc, 'txn) TableVectorIterator" where
  "Advance tvi =
    (if \<not> initialized tvi then Inr (False, tvi)
     else
       (case (iter tvi, table tvi, projected_columns tvi) of
          (Some it, Some tbl, Some pc) \<Rightarrow>
            if it = table_end tbl then Inr (False, tvi)
            else
              (case Scan tbl (GetTxn (exec_ctx tvi)) it pc of
                 (it', pc') \<Rightarrow>
                   Inr (True,
                     tvi\<lparr>iter := Some it', projected_columns := Some pc',
                         pci := Some pc'\<rparr>))
        | _ \<Rightarrow> Inl NullPointer))"

text \<open>The iterator after a successful \<open>Init\<close>: the flag is set and the pointers are not null.\<close>

definition tvi_ready :: "('it, 'pc, 'txn) TableVectorIterator \<Rightarrow> bool" where
  "tvi_ready tvi =
    (initialized tvi \<and> iter tvi \<noteq> None \<and> table tvi \<noteq> None \<and> projected_columns tvi \<noteq> None)"

text \<open>A table of \<open>n\<close> blocks for the examples: a slot iterator is a block number, a scan
  reads one block.\<close>

definition example_table :: "nat \<Rightarrow> (nat, nat list, nat) SqlTable" where
  "example_table n =
    \<lparr>table_begin = 0, table_end = n,
     Scan = (\<lambda>txn it pc. (Suc it, [it])),
     InitializerForProjectedColumns = (\<lambda>oids size. [])\<rparr>"

definition example_ctx :: "nat \<Rightarrow> (nat, nat list, nat) ExecutionContext" where
  "example_ctx n = \<lparr>GetTable = (\<lambda>oid. if oid = 1 then Some (example_table n) else None), GetTxn = 7\<rparr>"

section \<open>SqlTableRW (catalog\_sql\_table.h)\<close>

text \<open>
  Modelled from the spec: the type ids and \<open>TransientValue\<close> (type/type\_id.h and
  type/transient\_value.h are not among the sources): ``a tagged sum over bool, smallint,
  int, bigint, real, double, date, varchar, null''. The constructors carry the names of
  the \<open>TransientValueFactory\<close> functions; a real and a double are kept as their bit
  patterns, a varchar as the bytes of its C string without the terminator.
\<close>

datatype TypeId = BOOLEAN | SMALLINT | INTEGER | BIGINT | REAL | DOUBLE | DATE | VARCHAR

datatype TransientValue =
    GetNull TypeId
  | GetBoolean bool
  | GetSmallInt "16 word"
  | GetInteger "32 word"
  | GetBigInt "64 word"
  | GetReal "32 word"
  | GetDouble "64 word"
  | GetDate "32 word"
  | VarChar "8 word list"

fun Null :: "TransientValue \<Rightarrow> bool" where
  "Null (GetNull _) = True"
| "Null _ = False"


text \<open>C strings: \<open>strlen\<close> counts the bytes before the first zero byte.\<close>

definition strlen :: "8 word list \<Rightarrow> nat" where
  "strlen s = length (takeWhile (\<lambda>b. b \<noteq> 0) s)"


fun PeekVarChar :: "TransientValue \<Rightarrow> 8 word list" where
  "PeekVarChar (VarChar s) = s @ [0]"
| "PeekVarChar _ = [0]"

text \<open>
  Modelled from the spec: \<open>VarlenEntry\<close> (storage/varlen\_entry.h is not among the
  sources): ``either inline (at most threshold bytes, stored in place) or indirected
  (ptr, len) with an ownership flag''. \<open>CreateInline\<close> holds the bytes it copied and the
  32-bit size; \<open>Create\<close> holds the buffer its pointer refers to, the 32-bit size and
  the ownership flag. The inline threshold is a parameter of the model.
\<close>

datatype VarlenEntry =
    CreateInline "8 word list" "32 word"
  | Create "8 word list" "32 word" bool



text \<open>
  A projected row and a row view, as far as this class uses them: per projection offset a
  presence bit (the null bitmap) and the attribute's storage. The storage is typed by
  the last write through a cast pointer; \<open>Uninit\<close> is storage never written. A read
  through a pointer of another type than the last write is not modelled (a failure).
\<close>

datatype AttrData =
    Uninit
  | AsInt8 "8 word"
  | AsInt16 "16 word"
  | AsInt32 "32 word"
  | AsInt64 "64 word"
  | AsVarlen VarlenEntry

type_synonym ProjectedRow = "(bool \<times> AttrData) list"

datatype rw_error = OutOfRange | CatalogException | NotImplementedException | Unmodelled

definition SetNull :: "ProjectedRow \<Rightarrow> nat \<Rightarrow> rw_error + ProjectedRow" where
  "SetNull proj_row offset =
    (if offset < length proj_row then Inr (proj_row[offset := (False, snd (proj_row ! offset))])
     else Inl OutOfRange)"

text \<open>\<open>AccessForceNotNull\<close> followed by the store through the returned pointer.\<close>

definition AccessForceNotNull_store ::
  "ProjectedRow \<Rightarrow> nat \<Rightarrow> AttrData \<Rightarrow> rw_error + ProjectedRow" where
  "AccessForceNotNull_store proj_row offset v =
    (if offset < length proj_row then Inr (proj_row[offset := (True, v)]) else Inl OutOfRange)"



text \<open>
  The members of \<open>SqlTableRW\<close> that the two functions read, \<open>cols_\<close>, \<open>col_oids_\<close>
  and \<open>pr_map_\<close>: the column definitions, the column oids and the projection map from
  column oid to offset.
\<close>

record Column =
  GetName :: string
  GetType :: TypeId
  GetNullable :: bool
  GetOid :: nat

record SqlTableRW =
  rw_cols :: "Column list"
  rw_col_oids :: "nat list"
  rw_pr_map :: "(nat \<times> nat) list"

text \<open>\<open>pr_map_->at(col_oids_[col_num])\<close>: both lookups fail out of range.\<close>

definition pr_map_at_col :: "SqlTableRW \<Rightarrow> nat \<Rightarrow> rw_error + nat" where
  "pr_map_at_col rw col_num =
    (if col_num < length (rw_col_oids rw)
     then (case map_of (rw_pr_map rw) (rw_col_oids rw ! col_num) of
             None \<Rightarrow> Inl OutOfRange
           | Some offset \<Rightarrow> Inr offset)
     else Inl OutOfRange)"


definition SetColInRow ::
  "nat \<Rightarrow> SqlTableRW \<Rightarrow> ProjectedRow \<Rightarrow> nat \<Rightarrow> TransientValue \<Rightarrow> rw_error + ProjectedRow" where
  "SetColInRow InlineThreshold rw proj_row col_num v =
    (case pr_map_at_col rw col_num of
       Inl e \<Rightarrow> Inl e
     | Inr offset \<Rightarrow>
         if Null v then SetNull proj_row offset
         else
           (case v of
              GetBoolean b \<Rightarrow>
                AccessForceNotNull_store proj_row offset (AsInt8 (if b then 1 else 0))
            | GetInteger i \<Rightarrow> AccessForceNotNull_store proj_row offset (AsInt32 i)
            | GetBigInt i \<Rightarrow> AccessForceNotNull_store proj_row offset (AsInt64 i)
            | VarChar s \<Rightarrow>
                (let val_p = PeekVarChar v;
                     sz = strlen val_p
                 in if sz > InlineThreshold
                    then AccessForceNotNull_store proj_row offset
                           (AsVarlen (Create (take sz val_p) (of_nat sz) True))
                    else AccessForceNotNull_store proj_row offset
                           (AsVarlen (CreateInline (take (unat (of_nat sz :: 32 word)) val_p)
                                        (of_nat sz))))
            | _ \<Rightarrow> Inr proj_row))"










section \<open>Plans as trees of objects\<close>

text \<open>The addresses of all nodes of a plan. In memory every node is an object of its own,
  so no address occurs twice.\<close>

fun addrs :: "AbstractPlanNode \<Rightarrow> nat list" where
  "addrs (PlanNode a ty sch cs) = a # concat (map addrs cs)"

definition distinct_addrs :: "AbstractPlanNode \<Rightarrow> bool" where
  "distinct_addrs plan = distinct (addrs plan)"

text \<open>A plan whose nodes have the children that \<open>MakePipelines\<close> reads: one under an
  aggregate or an order-by, two under a join.\<close>

fun arity_ok :: "AbstractPlanNode \<Rightarrow> bool" where
  "arity_ok (PlanNode a ty sch cs) =
    ((if ty = AGGREGATE \<or> ty = ORDERBY then 1 \<le> length cs
      else if ty = HASHJOIN \<or> ty = NESTLOOP then 2 \<le> length cs
      else True)
     \<and> list_all arity_ok cs)"

text \<open>The nodes that \<open>MakePipelines\<close> visits: the node itself, both children of a join,
  the first child of any other node.\<close>

fun visited :: "AbstractPlanNode \<Rightarrow> AbstractPlanNode list" where
  "visited (PlanNode a ty sch cs) =
    PlanNode a ty sch cs #
      (if ty = HASHJOIN \<or> ty = NESTLOOP then
         (case cs of c0 # c1 # _ \<Rightarrow> visited c0 @ visited c1 | _ \<Rightarrow> [])
       else
         (case cs of c0 # _ \<Rightarrow> visited c0 | [] \<Rightarrow> []))"

definition is_breaker :: "AbstractPlanNode \<Rightarrow> bool" where
  "is_breaker op =
    (GetPlanNodeType op = AGGREGATE \<or> GetPlanNodeType op = ORDERBY \<or> GetPlanNodeType op = HASHJOIN)"

text \<open>
  Which translator reads the state that another one builds: the top translator of an
  aggregate or order-by reads what its bottom translator built, the right translator
  of a hash join probes the table its left translator built. A pipeline depends on
  another when one of its translators reads the state built by a translator of the other.
\<close>

fun reads_state_of :: "OperatorTranslator \<Rightarrow> OperatorTranslator \<Rightarrow> bool" where
  "reads_state_of (TopTranslator op bottom) b = (b = bottom)"
| "reads_state_of (RightTranslator op left) b = (b = left \<and> GetPlanNodeType op = HASHJOIN)"
| "reads_state_of _ _ = False"

definition depends_on :: "Pipeline \<Rightarrow> Pipeline \<Rightarrow> bool" where
  "depends_on v u = list_ex (\<lambda>t. list_ex (\<lambda>b. reads_state_of t b) u) v"

text \<open>
  What \<open>MakePipelines\<close> adds for a node, without the accumulators: the translators it
  appends to the current pipeline and the pipelines it pushes.
\<close>

fun pipes :: "AbstractPlanNode \<Rightarrow> Pipeline \<times> Pipeline list" where
  "pipes (PlanNode a ty sch cs) =
    (if ty = AGGREGATE \<or> ty = ORDERBY then
       (case cs of
          [] \<Rightarrow> ([], [])
        | c0 # _ \<Rightarrow>
            (case pipes c0 of
               (xs, qs) \<Rightarrow>
                 ([TopTranslator (PlanNode a ty sch cs) (BottomTranslator (PlanNode a ty sch cs))],
                  qs @ [xs @ [BottomTranslator (PlanNode a ty sch cs)]])))
     else if ty = HASHJOIN then
       (case cs of
          c0 # c1 # _ \<Rightarrow>
            (case (pipes c0, pipes c1) of
               ((xs0, qs0), (xs1, qs1)) \<Rightarrow>
                 (xs1 @ [RightTranslator (PlanNode a ty sch cs) (LeftTranslator (PlanNode a ty sch cs))],
                  qs0 @ [xs0 @ [LeftTranslator (PlanNode a ty sch cs)]] @ qs1))
        | _ \<Rightarrow> ([], []))
     else if ty = NESTLOOP then
       (case cs of
          c0 # c1 # _ \<Rightarrow>
            (case (pipes c0, pipes c1) of
               ((xs0, qs0), (xs1, qs1)) \<Rightarrow>
                 (xs0 @ [LeftTranslator (PlanNode a ty sch cs)] @ xs1
                    @ [RightTranslator (PlanNode a ty sch cs) (LeftTranslator (PlanNode a ty sch cs))],
                  qs0 @ qs1))
        | _ \<Rightarrow> ([], []))
     else
       (case cs of
          [] \<Rightarrow> ([RegularTranslator (PlanNode a ty sch cs)], [])
        | c0 # _ \<Rightarrow>
            (case pipes c0 of
               (xs, qs) \<Rightarrow> (xs @ [RegularTranslator (PlanNode a ty sch cs)], qs))))"

text \<open>The address of the plan node a translator was made for.\<close>

fun taddr :: "OperatorTranslator \<Rightarrow> nat option" where
  "taddr (BottomTranslator op) = Some (addr op)"
| "taddr (TopTranslator op _) = Some (addr op)"
| "taddr (LeftTranslator op) = Some (addr op)"
| "taddr (RightTranslator op _) = Some (addr op)"
| "taddr (RegularTranslator op) = Some (addr op)"
| "taddr OutputTranslator = None"

text \<open>All translators made for a node and the nodes visited below it.\<close>

definition emitted :: "AbstractPlanNode \<Rightarrow> OperatorTranslator list" where
  "emitted op = concat (snd (pipes op)) @ fst (pipes op)"

text \<open>\<open>precedes L b t\<close>: some pipeline of \<open>L\<close> holds \<open>b\<close> and a later one holds \<open>t\<close>.\<close>

fun precedes :: "'a list list \<Rightarrow> 'a \<Rightarrow> 'a \<Rightarrow> bool" where
  "precedes [] b t = False"
| "precedes (p # L) b t = ((b \<in> set p \<and> t \<in> set (concat L)) \<or> precedes L b t)"

text \<open>The translator that \<open>MakePipelines\<close> adds last to the current pipeline for a node.\<close>

definition root_translator :: "AbstractPlanNode \<Rightarrow> OperatorTranslator" where
  "root_translator op =
    (if GetPlanNodeType op = AGGREGATE \<or> GetPlanNodeType op = ORDERBY
     then TopTranslator op (BottomTranslator op)
     else if GetPlanNodeType op = HASHJOIN \<or> GetPlanNodeType op = NESTLOOP
     then RightTranslator op (LeftTranslator op)
     else RegularTranslator op)"

text \<open>
  \<open>breaks_at L ms b ts\<close>: some pipeline of \<open>L\<close> ends with \<open>b\<close> and holds all of \<open>ms\<close>,
  and a later pipeline holds all of \<open>ts\<close>. \<open>together L ts\<close>: one pipeline holds all of
  \<open>ts\<close>.
\<close>

definition together :: "'a list list \<Rightarrow> 'a list \<Rightarrow> bool" where
  "together L ts = list_ex (\<lambda>p. list_all (\<lambda>t. t \<in> set p) ts) L"

fun breaks_at :: "'a list list \<Rightarrow> 'a list \<Rightarrow> 'a \<Rightarrow> 'a list \<Rightarrow> bool" where
  "breaks_at [] ms b ts = False"
| "breaks_at (p # L) ms b ts =
    ((p \<noteq> [] \<and> last p = b \<and> list_all (\<lambda>t. t \<in> set p) ms \<and> together L ts)
     \<or> breaks_at L ms b ts)"

text \<open>
  Where the translators of a visited node lie in a list of pipelines: a break below an
  aggregate or order-by and on the left of a hash join, none at a nested-loop join or
  at any other node with a child.
\<close>

definition node_layout :: "Pipeline list \<Rightarrow> AbstractPlanNode \<Rightarrow> bool" where
  "node_layout L n =
    (if GetPlanNodeType n = AGGREGATE \<or> GetPlanNodeType n = ORDERBY then
       breaks_at L [root_translator (children n ! 0)] (BottomTranslator n)
         [TopTranslator n (BottomTranslator n)]
     else if GetPlanNodeType n = HASHJOIN then
       breaks_at L [root_translator (children n ! 0)] (LeftTranslator n)
         [root_translator (children n ! 1), RightTranslator n (LeftTranslator n)]
     else if GetPlanNodeType n = NESTLOOP then
       together L [root_translator (children n ! 0), LeftTranslator n,
                   root_translator (children n ! 1), RightTranslator n (LeftTranslator n)]
     else if children n = [] then together L [RegularTranslator n]
     else together L [root_translator (children n ! 0), RegularTranslator n])"

text \<open>A plan for the examples: a hash join of an aggregate over a scan with a scan.\<close>

definition example_plan :: AbstractPlanNode where
  "example_plan =
    PlanNode 0 HASHJOIN (Some [''col1''])
      [PlanNode 1 AGGREGATE None [PlanNode 2 SEQSCAN None []],
       PlanNode 3 SEQSCAN None []]"

section \<open>The ordered index\<close>

type_synonym TupleSlot = "nat \<times> nat"

text \<open>
  Modelled from the spec: the BwTree index (storage/index is not among the sources, only
  its test is): ``an ordered map from a packed key projection to a tuple slot'', with
  ``\<open>ScanAscending\<close> yields slots sorted by key ascending; \<open>ScanDescending\<close>
  descending; \<open>ScanLimit*\<close> yields at most n results in the same order; bounds
  [lo, hi] are inclusive''. The index is the list of its committed entries in key order;
  \<open>Insert\<close> puts an entry at its place in that order, a scan walks the entries of the
  range, upwards or downwards, and a limited scan stops after \<open>n\<close> results.
\<close>

type_synonym 'k BwTreeIndex = "('k \<times> TupleSlot) list"

definition Insert :: "'k::linorder \<Rightarrow> TupleSlot \<Rightarrow> 'k BwTreeIndex \<Rightarrow> 'k BwTreeIndex" where
  "Insert key slot index = insort_key fst (key, slot) index"

definition ScanAscending :: "'k::linorder \<Rightarrow> 'k \<Rightarrow> 'k BwTreeIndex \<Rightarrow> TupleSlot list" where
  "ScanAscending lo hi index = map snd (filter (\<lambda>e. lo \<le> fst e \<and> fst e \<le> hi) index)"

definition ScanDescending :: "'k::linorder \<Rightarrow> 'k \<Rightarrow> 'k BwTreeIndex \<Rightarrow> TupleSlot list" where
  "ScanDescending lo hi index = map snd (filter (\<lambda>e. lo \<le> fst e \<and> fst e \<le> hi) (rev index))"

definition ScanLimitAscending ::
  "'k::linorder \<Rightarrow> 'k \<Rightarrow> nat \<Rightarrow> 'k BwTreeIndex \<Rightarrow> TupleSlot list" where
  "ScanLimitAscending lo hi n index = take n (ScanAscending lo hi index)"

definition ScanLimitDescending ::
  "'k::linorder \<Rightarrow> 'k \<Rightarrow> nat \<Rightarrow> 'k BwTreeIndex \<Rightarrow> TupleSlot list" where
  "ScanLimitDescending lo hi n index = take n (ScanDescending lo hi index)"

text \<open>The index after a sequence of inserts into the empty index.\<close>

definition populate :: "('k::linorder \<times> TupleSlot) list \<Rightarrow> 'k BwTreeIndex" where
  "populate entries = fold (\<lambda>e index. Insert (fst e) (snd e) index) entries []"

text \<open>The index of the scan tests: the even keys of [0, 20], key \<open>i\<close> at slot \<open>(0, i)\<close>.\<close>

definition even_keys :: "int BwTreeIndex" where
  "even_keys = populate (map (\<lambda>i. (2 * int i, (0, 2 * i))) [0 ..< 11])"

text \<open>A code generator and pipeline functions for the examples.\<close>

definition example_codegen :: CodeGen where
  "example_codegen =
    \<lparr>GetStateVar = ''state'', GetStateType = ''State'', GetSetupFn = ''setup'',
     GetTeardownFn = ''teardown'', GetMainFn = ''main'', MainParams = [], ExecParams = []\<rparr>"

definition example_ops :: PipelineOps where
  "example_ops =
    \<lparr>Initialize = (\<lambda>pipeline vectors. vectors),
     Produce = (\<lambda>pipeline pipeline_idx. OperatorDecl ''pipeline''),
     GetPipelineName = (\<lambda>pipeline. ''pipeline'')\<rparr>"

chapter \<open>Properties\<close>

section \<open>The state struct\<close>

text \<open>
  C9. The first declaration of every compiled query is the state struct, and its fields
  are the fields the pipelines registered, in their order, followed by one more field:
  \<open>DUMMY\<close> of builtin type \<open>Int32\<close>. So the struct is never empty, also when no
  operator registers any state.
\<close>

theorem Compile_state_struct_has_trailing_dummy:
  "\<exists>rest. Compile cg ops pipelines =
      MakeStruct (GetStateType cg)
        (fst (snd (fold (Initialize ops) pipelines ([], [], [], [])))
           @ [MakeField ''DUMMY'' (BuiltinType Int32)]) # rest"
  by (simp add: Compile_def GenStateStruct_def GenHelperStructsAndFunctions_def
        GenFunction_def Let_def split: prod.splits)

section \<open>The main function\<close>

text \<open>
  What \<open>GenMainFunction\<close> emits for any list of pipelines: the declaration of the state
  variable, the call of setup, one call per pipeline in the order of \<open>pipelines_\<close>, the
  call of teardown, and a return of the literal 37.
\<close>

lemma GenMainFunction_body:
  "function_body (GenMainFunction cg ops pipelines) =
     [DeclareVariable (GetStateVar cg) (MakeExpr (GetStateType cg)) None,
      ExecCall (GetSetupFn cg)]
     @ map (\<lambda>p. ExecCall (GetPipelineName ops p)) pipelines
     @ [ExecCall (GetTeardownFn cg), ReturnStmt (IntLiteral 37)]"
  by (simp add: GenMainFunction_def Let_def)

text \<open>The main function of the older code path, \<open>GeneratePlan\<close>, does end with
  \<open>return 0\<close>.\<close>

lemma GeneratePlan_main_returns_0:
  "last (function_body (GeneratePlan_main query)) = ReturnStmt (IntLiteral 0)"
  by (simp add: GeneratePlan_main_def Let_def)

text \<open>
  The declarations that \<open>Compile\<close> emits, in order: the state struct, the helper
  declarations, setup, teardown, the function of every pipeline made with the pipeline's
  position in \<open>pipelines_\<close> as its index, and the main function.
\<close>

lemma Compile_layout:
  "Compile cg ops pipelines =
    (case fold (Initialize ops) pipelines ([], [], [], []) of
       (decls, state_fields, setup_stmts, teardown_stmts) \<Rightarrow>
         [MakeStruct (GetStateType cg) (state_fields @ [MakeField ''DUMMY'' (BuiltinType Int32)])]
         @ decls
         @ [FunctionDecl (GetSetupFn cg) (ExecParams cg) (BuiltinType Nil) setup_stmts,
            FunctionDecl (GetTeardownFn cg) (ExecParams cg) (BuiltinType Nil) teardown_stmts]
         @ map (\<lambda>i. Produce ops (pipelines ! i) (of_nat i)) [0 ..< length pipelines]
         @ [GenMainFunction cg ops pipelines])"
proof -
  have "zip pipelines [0 ..< length pipelines] =
      map (\<lambda>i. (pipelines ! i, i)) [0 ..< length pipelines]"
    by (rule nth_equalityI) simp_all
  then have "map (\<lambda>(pipeline, pipeline_idx). Produce ops pipeline (of_nat pipeline_idx))
          (zip pipelines [0 ..< length pipelines])
      = map (\<lambda>i. Produce ops (pipelines ! i) (of_nat i)) [0 ..< length pipelines]"
    by (simp add: comp_def)
  then show ?thesis
    by (simp add: Compile_def GenStateStruct_def GenHelperStructsAndFunctions_def
        GenFunction_def Let_def split: prod.splits)
qed

text \<open>
  C1 (the code differs). For the plan that is a single sequential scan, the main function
  that \<open>Compile\<close> emits ends with \<open>return 37\<close>, not with \<open>return 0\<close>, whatever names the
  code generator uses.
\<close>

theorem GenMainFunction_seqscan_returns_37:
  "Compiler (PlanNode 0 SEQSCAN None []) = Some [[RegularTranslator (PlanNode 0 SEQSCAN None [])]]
   \<and> last (function_body (last (Compile cg ops [[RegularTranslator (PlanNode 0 SEQSCAN None [])]])))
       = ReturnStmt (IntLiteral 37)
   \<and> ReturnStmt (IntLiteral 37) \<noteq> ReturnStmt (IntLiteral 0)"
  by (simp add: Compiler_def CreateRegularTranslator_def Add_def Compile_def
        GenMainFunction_def Let_def split: prod.splits)

section \<open>The bytecode enumeration\<close>

lemma length_CREATE_FOR_INT_TYPES: "length (CREATE_FOR_INT_TYPES F op) = 8"
  by (simp add: CREATE_FOR_INT_TYPES_def)

lemma length_BYTECODE_LIST: "length (BYTECODE_LIST F) = 399"
  unfolding BYTECODE_LIST_def
  by (simp only: length_append length_CREATE_FOR_INT_TYPES list.size add_Suc_right add_0_right 
     add_Suc add_0)

lemma BYTECODE_LIST_map: "BYTECODE_LIST F = map F (BYTECODE_LIST (\<lambda>inst. inst))"
  by (simp only: BYTECODE_LIST_def CREATE_FOR_INT_TYPES_def map_append list.map)

lemma sum_list_COUNT_OP: "sum_list (map COUNT_OP xs) = int (length xs)"
  by (induction xs) (simp_all add: COUNT_OP_def)

lemma Last_val: "Last = 398"
proof -
  have "BYTECODE_LIST COUNT_OP = map COUNT_OP (BYTECODE_LIST (\<lambda>inst. inst))"
    by (rule BYTECODE_LIST_map)
  then have "sum_list (BYTECODE_LIST COUNT_OP) = 399"
    by (simp add: sum_list_COUNT_OP length_BYTECODE_LIST)
  then show ?thesis by (simp add: Last_def)
qed

lemma last_BYTECODE_LIST: "last (BYTECODE_LIST F) = F ''Upper''"
  by (simp only: BYTECODE_LIST_def last_append last.simps append_is_Nil_conv list.distinct
        simp_thms if_False if_True)

lemma kBytecodeCount_val: "kBytecodeCount = 399"
  by (simp add: kBytecodeCount_def Last_val)

lemma Upper_in_opcodes: "(''Upper'', 398) \<in> set Bytecode_opcodes"
proof -
  let ?insts = "BYTECODE_LIST DECLARE_OP"
  have len: "length ?insts = 399" by (rule length_BYTECODE_LIST)
  then have ne: "?insts \<noteq> []" by auto
  have "?insts ! 398 = last ?insts"
    using last_conv_nth [OF ne] len by simp
  then have a: "?insts ! 398 = ''Upper''"
    by (simp only: last_BYTECODE_LIST DECLARE_OP_def)
  have b: "map of_nat [0 ..< length ?insts] ! 398 = (398 :: 32 word)"
    using len by simp
  show ?thesis
    unfolding Bytecode_opcodes_def Let_def in_set_zip
    by (rule exI [of _ 398]) (use a b len in simp)
qed

lemma opcodes_le_Last:
  assumes "b \<in> set Bytecode_opcodes" shows "snd b \<le> Last"
proof -
  let ?insts = "BYTECODE_LIST DECLARE_OP"
  have len: "length ?insts = 399" by (rule length_BYTECODE_LIST)
  from assms have "b \<in> set (zip ?insts (map of_nat [0 ..< length ?insts]))"
    by (simp only: Bytecode_opcodes_def Let_def)
  then obtain i where "map of_nat [0 ..< length ?insts] ! i = snd b" and "i < length ?insts"
    unfolding in_set_zip by blast
  then have i: "i < 399" and v: "snd b = of_nat i"
    using len by auto
  have "unat (of_nat i :: 32 word) = i"
    using i by (simp add: unat_of_nat)
  then show ?thesis using i v
    by (simp add: Last_val word_le_nat_alt)
qed

text \<open>
  C8 (amended). \<open>Last\<close> is the value of the final opcode \<open>Upper\<close>, not one past it: every
  declared opcode is at most \<open>Last\<close>, the last of them equals \<open>Last\<close>, and
  \<open>kBytecodeCount = Last + 1\<close> is the number of entries of the opcode list.
\<close>

theorem Bytecode_Last_is_final_opcode:
  "(\<forall>b \<in> set Bytecode_opcodes. snd b \<le> Last)
   \<and> last Bytecode_opcodes = (''Upper'', Last)
   \<and> unat kBytecodeCount = length (BYTECODE_LIST DECLARE_OP)
   \<and> kBytecodeCount = Last + 1"
proof -
  let ?insts = "BYTECODE_LIST DECLARE_OP"
  have len: "length ?insts = 399" by (rule length_BYTECODE_LIST)
  then have ne: "?insts \<noteq> []" by auto
  have l: "last Bytecode_opcodes = (''Upper'', Last)"
    unfolding Bytecode_opcodes_def Let_def
    using len ne
    apply (subst last_zip)
       apply simp
      apply simp
     apply simp
    apply (simp add: last_BYTECODE_LIST Last_val last_map)
    apply (simp only: last_BYTECODE_LIST DECLARE_OP_def)
    done
  show ?thesis
    using opcodes_le_Last l len by (simp add: kBytecodeCount_def Last_val)
qed

theorem Bytecode_Last_is_final_opcode_witness:
  "(''Upper'', 398) \<in> set Bytecode_opcodes \<and> snd (''Upper'', 398 :: 32 word) \<le> Last"
  using Bytecode_Last_is_final_opcode Upper_in_opcodes by blast

text \<open>
  C8 as stated fails: the declared opcode \<open>Upper\<close> has the value 398, which is \<open>Last\<close>
  itself, so it is not below \<open>Last\<close>.
\<close>

theorem Bytecode_final_opcode_not_below_Last:
  "(''Upper'', 398) \<in> set Bytecode_opcodes \<and> Last = 398 \<and> \<not> ((398 :: 32 word) < Last)"
  using Upper_in_opcodes by (simp add: Last_val)

section \<open>The table vector iterator\<close>

lemma Advance_not_initialized: "\<not> initialized tvi \<Longrightarrow> Advance tvi = Inr (False, tvi)"
  by (simp add: Advance_def)

lemma Init_ready:
  assumes "Init k tvi = Inr (r, tvi')"
  shows "r \<and> tvi_ready tvi' \<and> iter tvi' = map_option table_begin (table tvi')"
  using assms
  by (auto simp: Init_def tvi_ready_def Let_def split: option.splits if_splits)

lemma Advance_ready:
  assumes "tvi_ready tvi"
  shows "\<exists>r tvi'. Advance tvi = Inr (r, tvi') \<and> tvi_ready tvi'
     \<and> (r = False \<longleftrightarrow> iter tvi = map_option table_end (table tvi))
     \<and> (\<not> r \<longrightarrow> tvi' = tvi)
     \<and> (r \<longrightarrow> (\<exists>it' pc'.
            Scan (the (table tvi)) (GetTxn (exec_ctx tvi)) (the (iter tvi))
              (the (projected_columns tvi)) = (it', pc')
            \<and> tvi' = tvi\<lparr>iter := Some it', projected_columns := Some pc',
                          pci := Some pc'\<rparr>))"
  using assms
  by (auto simp: Advance_def tvi_ready_def split: prod.splits)

text \<open>
  C10. Before \<open>Init\<close> (the flag \<open>initialized\<close> is false, as the constructor leaves it),
  \<open>Advance\<close> returns false and leaves every member as it was, whatever the table is.
  A successful \<open>Init\<close> returns true and leaves the iterator ready, at the table's
  \<open>begin()\<close>. On a ready iterator \<open>Advance\<close> does not fail and leaves the iterator
  ready; it returns false exactly when the slot iterator equals the table's \<open>end()\<close>,
  changing nothing; otherwise it returns true after one \<open>Scan\<close> with the context's
  transaction, which moves the slot iterator and fills the buffer, at which the PCI then
  points.
\<close>

theorem Advance_after_and_before_Init:
  "\<not> initialized (TableVectorIterator_new oid ctx)
   \<and> (\<not> initialized tvi \<longrightarrow> Advance tvi = Inr (False, tvi))
   \<and> (Init k tvi = Inr (r0, tvi0) \<longrightarrow>
        r0 \<and> tvi_ready tvi0 \<and> iter tvi0 = map_option table_begin (table tvi0))
   \<and> (tvi_ready tvi \<longrightarrow>
        (\<exists>r tvi'. Advance tvi = Inr (r, tvi') \<and> tvi_ready tvi'
          \<and> (r = False \<longleftrightarrow> iter tvi = map_option table_end (table tvi))
          \<and> (\<not> r \<longrightarrow> tvi' = tvi)
          \<and> (r \<longrightarrow> (\<exists>it' pc'.
                Scan (the (table tvi)) (GetTxn (exec_ctx tvi)) (the (iter tvi))
                  (the (projected_columns tvi)) = (it', pc')
                \<and> tvi' = tvi\<lparr>iter := Some it', projected_columns := Some pc',
                              pci := Some pc'\<rparr>))))"
proof (intro conjI impI)
  show "\<not> initialized (TableVectorIterator_new oid ctx)"
    by (simp add: TableVectorIterator_new_def)
qed (use Advance_not_initialized [of tvi] Init_ready [of k tvi r0 tvi0] Advance_ready [of tvi]
     in blast)+

theorem Advance_after_and_before_Init_witness:
  "Advance (TableVectorIterator_new 1 (example_ctx 1)) =
     Inr (False, TableVectorIterator_new 1 (example_ctx 1))
   \<and> (\<exists>tvi0. Init 2048 ((TableVectorIterator_new 1 (example_ctx 1))\<lparr>col_oids := [1]\<rparr>) = Inr (True, tvi0)
        \<and> tvi_ready tvi0
        \<and> (\<exists>tvi1. Advance tvi0 = Inr (True, tvi1) \<and> iter tvi1 = Some 1 \<and> pci tvi1 = Some [0]
              \<and> tvi_ready tvi1 \<and> Advance tvi1 = Inr (False, tvi1)))"
proof -
  let ?new = "TableVectorIterator_new 1 (example_ctx 1)"
  let ?tvi0 = "?new\<lparr>col_oids := [1], table := Some (example_table 1),
      projected_columns := Some [], initialized := True, iter := Some 0\<rparr>"
  let ?tvi1 = "?tvi0\<lparr>iter := Some 1, projected_columns := Some [0], pci := Some [0]\<rparr>"
  have n: "\<not> initialized ?new"
    by (simp add: TableVectorIterator_new_def)
  have i: "Init 2048 (?new\<lparr>col_oids := [1]\<rparr>) = Inr (True, ?tvi0)"
    by (simp add: Init_def TableVectorIterator_new_def example_ctx_def example_table_def)
  have r0: "tvi_ready ?tvi0"
    using Advance_after_and_before_Init
      [where tvi = "?new\<lparr>col_oids := [1]\<rparr>" and k = 2048 and ?r0.0 = True and ?tvi0.0 = ?tvi0] i
    by blast
  have a1: "Advance ?tvi0 = Inr (True, ?tvi1)"
    by (simp add: Advance_def TableVectorIterator_new_def example_ctx_def example_table_def)
  have r1: "tvi_ready ?tvi1"
    by (simp add: tvi_ready_def)
  have a2: "Advance ?tvi1 = Inr (False, ?tvi1)"
    by (simp add: Advance_def example_table_def)
  have a0: "Advance ?new = Inr (False, ?new)"
    using Advance_after_and_before_Init [where tvi = ?new] n
    by blast
  show ?thesis
    using a0 i r0 a1 r1 a2 by simp
qed

section \<open>Round trip through a projected row\<close>



text \<open>
  A non-null SMALLINT value is not written at all: \<open>SetColInRow\<close> has no case for it and
  leaves the projected row as it was, the null bit included.
\<close>

lemma SetColInRow_SmallInt_ignored:
  "pr_map_at_col rw col_num = Inr offset \<Longrightarrow>
     SetColInRow thr rw proj_row col_num (GetSmallInt v) = Inr proj_row"
  by (simp add: SetColInRow_def)


















section \<open>Pipelines and their order\<close>

lemma MakePipelines_pipes:
  "arity_ok op \<Longrightarrow>
     MakePipelines op (cur, ps) = Some (cur @ fst (pipes op), ps @ snd (pipes op))"
proof (induction op arbitrary: cur ps)
  case (PlanNode a ty sch cs)
  show ?case
  proof (cases cs)
    case Nil
    with PlanNode.prems show ?thesis
      by (auto simp: Add_def CreateRegularTranslator_def split: if_splits)
  next
    case (Cons c0 cs')
    note c0 = this
    have ih0: "\<And>cur ps. MakePipelines c0 (cur, ps) = Some (cur @ fst (pipes c0), ps @ snd (pipes c0))"
      using PlanNode.IH [of c0] PlanNode.prems c0 by simp
    show ?thesis
    proof (cases cs')
      case Nil
      with c0 PlanNode.prems ih0 show ?thesis
        by (auto simp: Add_def CreateRegularTranslator_def CreateBottomTranslator_def
              CreateTopTranslator_def Let_def split: prod.splits if_splits)
    next
      case (Cons c1 cs'')
      have ih1: "\<And>cur ps. MakePipelines c1 (cur, ps) = Some (cur @ fst (pipes c1), ps @ snd (pipes c1))"
        using PlanNode.IH [of c1] PlanNode.prems c0 Cons by simp
      from c0 Cons ih0 ih1 show ?thesis
        by (simp add: Add_def CreateRegularTranslator_def CreateBottomTranslator_def
              CreateTopTranslator_def CreateLeftTranslator_def CreateRightTranslator_def
              Let_def split: prod.splits)
    qed
  qed
qed

lemma precedes_append:
  "precedes (A @ B) b t =
     (precedes A b t \<or> precedes B b t \<or> (b \<in> set (concat A) \<and> t \<in> set (concat B)))"
  by (induction A) auto

lemma precedes_index:
  "precedes L b t \<Longrightarrow> \<exists>i j. i < j \<and> j < length L \<and> b \<in> set (L ! i) \<and> t \<in> set (L ! j)"
proof (induction L)
  case Nil
  then show ?case by simp
next
  case (Cons p L)
  from Cons.prems consider "b \<in> set p" "t \<in> set (concat L)" | "precedes L b t"
    by auto
  then show ?case
  proof cases
    case 1
    then obtain q where "q \<in> set L" "t \<in> set q"
      by auto
    then obtain j where j: "j < length L" "t \<in> set (L ! j)"
      by (metis in_set_conv_nth)
    show ?thesis
      by (rule exI [of _ 0], rule exI [of _ "Suc j"]) (use 1 j in simp)
  next
    case 2
    with Cons.IH obtain i j where ij: "i < j" "j < length L" "b \<in> set (L ! i)" "t \<in> set (L ! j)"
      by blast
    show ?thesis
      by (rule exI [of _ "Suc i"], rule exI [of _ "Suc j"]) (use ij in simp)
  qed
qed

lemma distinct_concat_index:
  "distinct (concat L) \<Longrightarrow> i < length L \<Longrightarrow> j < length L \<Longrightarrow>
     x \<in> set (L ! i) \<Longrightarrow> x \<in> set (L ! j) \<Longrightarrow> i = j"
proof (induction L arbitrary: i j)
  case Nil
  then show ?case by simp
next
  case (Cons p L)
  have d: "distinct (concat L)" and disj: "set p \<inter> set (concat L) = {}"
    using Cons.prems(1) by simp_all
  have out: "x \<notin> set p" if "k < length L" "x \<in> set (L ! k)" for k
  proof -
    have "L ! k \<in> set L"
      using that(1) by simp
    then have "x \<in> set (concat L)"
      using that(2) by auto
    with disj show ?thesis
      by blast
  qed
  show ?case
  proof (cases i)
    case 0
    note i0 = this
    show ?thesis
    proof (cases j)
      case 0
      with i0 show ?thesis by simp
    next
      case (Suc j')
      with i0 Cons.prems out [of j'] show ?thesis by simp
    qed
  next
    case (Suc i')
    note i = this
    show ?thesis
    proof (cases j)
      case 0
      with i Cons.prems out [of i'] show ?thesis by simp
    next
      case (Suc j')
      with i Cons.prems d Cons.IH [of i' j'] show ?thesis by simp
    qed
  qed
qed

lemma plan_induct [consumes 1, case_names leaf regular breaker hashjoin nestloop]:
  assumes ok: "arity_ok op"
    and leaf: "\<And>a ty sch.
        ty \<noteq> AGGREGATE \<Longrightarrow> ty \<noteq> ORDERBY \<Longrightarrow> ty \<noteq> HASHJOIN \<Longrightarrow> ty \<noteq> NESTLOOP \<Longrightarrow>
        P (PlanNode a ty sch [])"
    and regular: "\<And>a ty sch c0 cs.
        ty \<noteq> AGGREGATE \<Longrightarrow> ty \<noteq> ORDERBY \<Longrightarrow> ty \<noteq> HASHJOIN \<Longrightarrow> ty \<noteq> NESTLOOP \<Longrightarrow>
        arity_ok c0 \<Longrightarrow> P c0 \<Longrightarrow> P (PlanNode a ty sch (c0 # cs))"
    and breaker: "\<And>a ty sch c0 cs.
        ty = AGGREGATE \<or> ty = ORDERBY \<Longrightarrow> arity_ok c0 \<Longrightarrow> P c0 \<Longrightarrow>
        P (PlanNode a ty sch (c0 # cs))"
    and hashjoin: "\<And>a sch c0 c1 cs.
        arity_ok c0 \<Longrightarrow> arity_ok c1 \<Longrightarrow> P c0 \<Longrightarrow> P c1 \<Longrightarrow>
        P (PlanNode a HASHJOIN sch (c0 # c1 # cs))"
    and nestloop: "\<And>a sch c0 c1 cs.
        arity_ok c0 \<Longrightarrow> arity_ok c1 \<Longrightarrow> P c0 \<Longrightarrow> P c1 \<Longrightarrow>
        P (PlanNode a NESTLOOP sch (c0 # c1 # cs))"
  shows "P op"
  using ok
proof (induction op)
  case (PlanNode a ty sch cs)
  show ?case
  proof (cases cs)
    case Nil
    with PlanNode.prems show ?thesis
      by (auto intro: leaf split: if_splits)
  next
    case (Cons c0 cs')
    note c0 = this
    have ok0: "arity_ok c0"
      using PlanNode.prems c0 by simp
    have p0: "P c0"
      using PlanNode.IH [of c0] ok0 c0 by simp
    show ?thesis
    proof (cases cs')
      case Nil
      with c0 PlanNode.prems p0 ok0 show ?thesis
        by (auto intro: regular breaker split: if_splits)
    next
      case (Cons c1 cs'')
      have ok1: "arity_ok c1"
        using PlanNode.prems c0 Cons by simp
      have p1: "P c1"
        using PlanNode.IH [of c1] ok1 c0 Cons by simp
      consider "ty = AGGREGATE \<or> ty = ORDERBY" | "ty = HASHJOIN" | "ty = NESTLOOP"
        | "ty \<noteq> AGGREGATE" "ty \<noteq> ORDERBY" "ty \<noteq> HASHJOIN" "ty \<noteq> NESTLOOP"
        by blast
      then show ?thesis
        using c0 Cons p0 p1 ok0 ok1 by cases (auto intro: regular breaker hashjoin nestloop)
    qed
  qed
qed

lemma pipes_leaf:
  "ty \<noteq> AGGREGATE \<Longrightarrow> ty \<noteq> ORDERBY \<Longrightarrow> ty \<noteq> HASHJOIN \<Longrightarrow> ty \<noteq> NESTLOOP \<Longrightarrow>
     pipes (PlanNode a ty sch []) = ([RegularTranslator (PlanNode a ty sch [])], [])"
  by simp

lemma pipes_regular:
  "ty \<noteq> AGGREGATE \<Longrightarrow> ty \<noteq> ORDERBY \<Longrightarrow> ty \<noteq> HASHJOIN \<Longrightarrow> ty \<noteq> NESTLOOP \<Longrightarrow>
     pipes (PlanNode a ty sch (c0 # cs)) =
       (fst (pipes c0) @ [RegularTranslator (PlanNode a ty sch (c0 # cs))], snd (pipes c0))"
  by (simp split: prod.splits)

lemma pipes_breaker:
  "ty = AGGREGATE \<or> ty = ORDERBY \<Longrightarrow>
     pipes (PlanNode a ty sch (c0 # cs)) =
       ([TopTranslator (PlanNode a ty sch (c0 # cs)) (BottomTranslator (PlanNode a ty sch (c0 # cs)))],
        snd (pipes c0) @ [fst (pipes c0) @ [BottomTranslator (PlanNode a ty sch (c0 # cs))]])"
  by (auto split: prod.splits)

lemma pipes_hashjoin:
  "pipes (PlanNode a HASHJOIN sch (c0 # c1 # cs)) =
     (fst (pipes c1) @ [RightTranslator (PlanNode a HASHJOIN sch (c0 # c1 # cs))
                          (LeftTranslator (PlanNode a HASHJOIN sch (c0 # c1 # cs)))],
      snd (pipes c0) @ [fst (pipes c0) @ [LeftTranslator (PlanNode a HASHJOIN sch (c0 # c1 # cs))]]
        @ snd (pipes c1))"
  by (simp split: prod.splits)

lemma pipes_nestloop:
  "pipes (PlanNode a NESTLOOP sch (c0 # c1 # cs)) =
     (fst (pipes c0) @ [LeftTranslator (PlanNode a NESTLOOP sch (c0 # c1 # cs))] @ fst (pipes c1)
        @ [RightTranslator (PlanNode a NESTLOOP sch (c0 # c1 # cs))
             (LeftTranslator (PlanNode a NESTLOOP sch (c0 # c1 # cs)))],
      snd (pipes c0) @ snd (pipes c1))"
  by (simp split: prod.splits)

lemmas pipes_cases = pipes_leaf pipes_regular pipes_breaker pipes_hashjoin pipes_nestloop

lemma set_emitted_leaf:
  "ty \<noteq> AGGREGATE \<Longrightarrow> ty \<noteq> ORDERBY \<Longrightarrow> ty \<noteq> HASHJOIN \<Longrightarrow> ty \<noteq> NESTLOOP \<Longrightarrow>
     set (emitted (PlanNode a ty sch [])) = {RegularTranslator (PlanNode a ty sch [])}"
  by (simp add: emitted_def pipes_leaf del: pipes.simps)

lemma set_emitted_regular:
  "ty \<noteq> AGGREGATE \<Longrightarrow> ty \<noteq> ORDERBY \<Longrightarrow> ty \<noteq> HASHJOIN \<Longrightarrow> ty \<noteq> NESTLOOP \<Longrightarrow>
     set (emitted (PlanNode a ty sch (c0 # cs))) =
       insert (RegularTranslator (PlanNode a ty sch (c0 # cs))) (set (emitted c0))"
  by (simp add: emitted_def pipes_regular del: pipes.simps)

lemma set_emitted_breaker:
  "ty = AGGREGATE \<or> ty = ORDERBY \<Longrightarrow>
     set (emitted (PlanNode a ty sch (c0 # cs))) =
       {TopTranslator (PlanNode a ty sch (c0 # cs)) (BottomTranslator (PlanNode a ty sch (c0 # cs))),
        BottomTranslator (PlanNode a ty sch (c0 # cs))} \<union> set (emitted c0)"
  by (simp add: emitted_def pipes_breaker del: pipes.simps) blast

lemma set_emitted_hashjoin:
  "set (emitted (PlanNode a HASHJOIN sch (c0 # c1 # cs))) =
     {RightTranslator (PlanNode a HASHJOIN sch (c0 # c1 # cs))
        (LeftTranslator (PlanNode a HASHJOIN sch (c0 # c1 # cs))),
      LeftTranslator (PlanNode a HASHJOIN sch (c0 # c1 # cs))}
     \<union> set (emitted c0) \<union> set (emitted c1)"
  by (simp add: emitted_def pipes_hashjoin del: pipes.simps) blast

lemma set_emitted_nestloop:
  "set (emitted (PlanNode a NESTLOOP sch (c0 # c1 # cs))) =
     {RightTranslator (PlanNode a NESTLOOP sch (c0 # c1 # cs))
        (LeftTranslator (PlanNode a NESTLOOP sch (c0 # c1 # cs))),
      LeftTranslator (PlanNode a NESTLOOP sch (c0 # c1 # cs))}
     \<union> set (emitted c0) \<union> set (emitted c1)"
  by (simp add: emitted_def pipes_nestloop del: pipes.simps) blast

lemmas set_emitted_cases =
  set_emitted_leaf set_emitted_regular set_emitted_breaker set_emitted_hashjoin set_emitted_nestloop

lemma emitted_addrs:
  "arity_ok op \<Longrightarrow> t \<in> set (emitted op) \<Longrightarrow> taddr t \<in> Some ` set (addrs op)"
proof (induction op arbitrary: t rule: plan_induct)
  case (leaf a ty sch)
  then show ?case by (simp add: set_emitted_leaf)
next
  case (regular a ty sch c0 cs)
  then show ?case by (auto simp: set_emitted_regular)
next
  case (breaker a ty sch c0 cs)
  then show ?case by (auto simp: set_emitted_breaker)
next
  case (hashjoin a sch c0 c1 cs)
  then show ?case by (auto simp: set_emitted_hashjoin)
next
  case (nestloop a sch c0 c1 cs)
  then show ?case by (auto simp: set_emitted_nestloop)
qed

lemma emitted_not_addr:
  "arity_ok op \<Longrightarrow> a \<notin> set (addrs op) \<Longrightarrow> taddr t = Some a \<Longrightarrow> t \<notin> set (emitted op)"
  using emitted_addrs [of op t] by auto

lemma emitted_disjoint:
  assumes "arity_ok c0" "arity_ok c1" "set (addrs c0) \<inter> set (addrs c1) = {}"
  shows "set (emitted c0) \<inter> set (emitted c1) = {}"
proof -
  have False if "t \<in> set (emitted c0)" "t \<in> set (emitted c1)" for t
  proof -
    from that assms(1,2) have "taddr t \<in> Some ` set (addrs c0)" "taddr t \<in> Some ` set (addrs c1)"
      by (simp_all add: emitted_addrs)
    with assms(3) show False by auto
  qed
  then show ?thesis by blast
qed

lemma Output_not_emitted: "arity_ok op \<Longrightarrow> OutputTranslator \<notin> set (emitted op)"
  using emitted_addrs [of op OutputTranslator] by auto

lemma distinct_two_pipelines:
  assumes "distinct (A @ B)" "distinct (C @ D)" "set (A @ B) \<inter> set (C @ D) = {}"
    and "l \<notin> set (A @ B)" "l \<notin> set (C @ D)" "r \<notin> set (A @ B)" "r \<notin> set (C @ D)" "l \<noteq> r"
  shows "distinct (A @ (B @ [l]) @ C @ D @ [r])" and "distinct (A @ C @ B @ [l] @ D @ [r])"
  using assms by auto

lemma emitted_distinct:
  "arity_ok op \<Longrightarrow> distinct (addrs op) \<Longrightarrow> distinct (emitted op)"
proof (induction op rule: plan_induct)
  case (leaf a ty sch)
  then show ?case by (simp add: emitted_def pipes_leaf del: pipes.simps)
next
  case (regular a ty sch c0 cs)
  let ?op = "PlanNode a ty sch (c0 # cs)"
  from regular.prems have a: "a \<notin> set (addrs c0)" and d0: "distinct (addrs c0)"
    by simp_all
  have n: "RegularTranslator ?op \<notin> set (emitted c0)"
    using emitted_not_addr [OF regular.hyps(5) a] by simp
  have "distinct (emitted c0)"
    using regular.IH d0 by simp
  with n show ?case
    using regular.hyps(1-4)
    by (simp add: emitted_def pipes_regular del: pipes.simps)
next
  case (breaker a ty sch c0 cs)
  let ?op = "PlanNode a ty sch (c0 # cs)"
  from breaker.prems have a: "a \<notin> set (addrs c0)" and d0: "distinct (addrs c0)"
    by simp_all
  have n: "BottomTranslator ?op \<notin> set (emitted c0)"
      "TopTranslator ?op (BottomTranslator ?op) \<notin> set (emitted c0)"
    using emitted_not_addr [OF breaker.hyps(2) a] by simp_all
  have "distinct (emitted c0)"
    using breaker.IH d0 by simp
  with n show ?case
    using breaker.hyps(1)
    by (simp add: emitted_def pipes_breaker del: pipes.simps)
next
  case (hashjoin a sch c0 c1 cs)
  let ?op = "PlanNode a HASHJOIN sch (c0 # c1 # cs)"
  from hashjoin.prems have a: "a \<notin> set (addrs c0)" "a \<notin> set (addrs c1)"
    and d: "distinct (addrs c0)" "distinct (addrs c1)"
    and dj: "set (addrs c0) \<inter> set (addrs c1) = {}"
    by auto
  have n: "LeftTranslator ?op \<notin> set (emitted c0)" "LeftTranslator ?op \<notin> set (emitted c1)"
      "RightTranslator ?op (LeftTranslator ?op) \<notin> set (emitted c0)"
      "RightTranslator ?op (LeftTranslator ?op) \<notin> set (emitted c1)"
    using emitted_not_addr [OF hashjoin.hyps(1) a(1)] emitted_not_addr [OF hashjoin.hyps(2) a(2)]
    by simp_all
  have e: "distinct (emitted c0)" "distinct (emitted c1)"
    using hashjoin.IH d by simp_all
  have dj': "set (emitted c0) \<inter> set (emitted c1) = {}"
    using emitted_disjoint [OF hashjoin.hyps(1,2) dj] .
  have "emitted ?op = concat (snd (pipes c0)) @ (fst (pipes c0) @ [LeftTranslator ?op])
      @ concat (snd (pipes c1)) @ fst (pipes c1) @ [RightTranslator ?op (LeftTranslator ?op)]"
    by (simp add: emitted_def pipes_hashjoin del: pipes.simps)
  moreover have "distinct \<dots>"
    by (rule distinct_two_pipelines(1)) (use n e dj' in \<open>simp_all add: emitted_def\<close>)
  ultimately show ?case by simp
next
  case (nestloop a sch c0 c1 cs)
  let ?op = "PlanNode a NESTLOOP sch (c0 # c1 # cs)"
  from nestloop.prems have a: "a \<notin> set (addrs c0)" "a \<notin> set (addrs c1)"
    and d: "distinct (addrs c0)" "distinct (addrs c1)"
    and dj: "set (addrs c0) \<inter> set (addrs c1) = {}"
    by auto
  have n: "LeftTranslator ?op \<notin> set (emitted c0)" "LeftTranslator ?op \<notin> set (emitted c1)"
      "RightTranslator ?op (LeftTranslator ?op) \<notin> set (emitted c0)"
      "RightTranslator ?op (LeftTranslator ?op) \<notin> set (emitted c1)"
    using emitted_not_addr [OF nestloop.hyps(1) a(1)] emitted_not_addr [OF nestloop.hyps(2) a(2)]
    by simp_all
  have e: "distinct (emitted c0)" "distinct (emitted c1)"
    using nestloop.IH d by simp_all
  have dj': "set (emitted c0) \<inter> set (emitted c1) = {}"
    using emitted_disjoint [OF nestloop.hyps(1,2) dj] .
  have "emitted ?op = concat (snd (pipes c0)) @ concat (snd (pipes c1)) @ fst (pipes c0)
      @ [LeftTranslator ?op] @ fst (pipes c1) @ [RightTranslator ?op (LeftTranslator ?op)]"
    by (simp add: emitted_def pipes_nestloop del: pipes.simps)
  moreover have "distinct \<dots>"
    by (rule distinct_two_pipelines(2)) (use n e dj' in \<open>simp_all add: emitted_def\<close>)
  ultimately show ?case by simp
qed

lemma emitted_precedes:
  "arity_ok op \<Longrightarrow> t \<in> set (emitted op) \<Longrightarrow> reads_state_of t b \<Longrightarrow>
     precedes (snd (pipes op) @ [fst (pipes op)]) b t"
proof (induction op rule: plan_induct)
  case (leaf a ty sch)
  then show ?case by (simp add: set_emitted_leaf)
next
  case (regular a ty sch c0 cs)
  from regular.prems regular.hyps(1-4) have "t \<in> set (emitted c0)"
    by (auto simp: set_emitted_regular)
  with regular.IH regular.prems(2) have "precedes (snd (pipes c0) @ [fst (pipes c0)]) b t"
    by simp
  then show ?case
    using regular.hyps(1-4)
    by (simp add: pipes_regular precedes_append del: pipes.simps) blast?
next
  case (breaker a ty sch c0 cs)
  let ?op = "PlanNode a ty sch (c0 # cs)"
  from breaker.prems breaker.hyps(1)
  consider "t = TopTranslator ?op (BottomTranslator ?op)" "b = BottomTranslator ?op"
    | "t \<in> set (emitted c0)"
    by (auto simp: set_emitted_breaker)
  then show ?case
  proof cases
    case 1
    then show ?thesis
      using breaker.hyps(1) by (simp add: pipes_breaker precedes_append del: pipes.simps) blast?
  next
    case 2
    with breaker.IH breaker.prems(2) have "precedes (snd (pipes c0) @ [fst (pipes c0)]) b t"
      by simp
    then show ?thesis
      using breaker.hyps(1) by (simp add: pipes_breaker precedes_append del: pipes.simps) blast?
  qed
next
  case (hashjoin a sch c0 c1 cs)
  let ?op = "PlanNode a HASHJOIN sch (c0 # c1 # cs)"
  from hashjoin.prems
  consider "t = RightTranslator ?op (LeftTranslator ?op)" "b = LeftTranslator ?op"
    | "t \<in> set (emitted c0)" | "t \<in> set (emitted c1)"
    by (auto simp: set_emitted_hashjoin)
  then show ?case
  proof cases
    case 1
    then show ?thesis
      by (simp add: pipes_hashjoin precedes_append del: pipes.simps) blast?
  next
    case 2
    with hashjoin.IH(1) hashjoin.prems(2) have "precedes (snd (pipes c0) @ [fst (pipes c0)]) b t"
      by simp
    then show ?thesis
      by (simp add: pipes_hashjoin precedes_append del: pipes.simps) blast?
  next
    case 3
    with hashjoin.IH(2) hashjoin.prems(2) have "precedes (snd (pipes c1) @ [fst (pipes c1)]) b t"
      by simp
    then show ?thesis
      by (simp add: pipes_hashjoin precedes_append del: pipes.simps) blast?
  qed
next
  case (nestloop a sch c0 c1 cs)
  let ?op = "PlanNode a NESTLOOP sch (c0 # c1 # cs)"
  from nestloop.prems
  consider "t \<in> set (emitted c0)" | "t \<in> set (emitted c1)"
    by (auto simp: set_emitted_nestloop)
  then show ?case
  proof cases
    case 1
    with nestloop.IH(1) nestloop.prems(2) have "precedes (snd (pipes c0) @ [fst (pipes c0)]) b t"
      by simp
    then show ?thesis
      by (simp add: pipes_nestloop precedes_append del: pipes.simps) blast?
  next
    case 2
    with nestloop.IH(2) nestloop.prems(2) have "precedes (snd (pipes c1) @ [fst (pipes c1)]) b t"
      by simp
    then show ?thesis
      by (simp add: pipes_nestloop precedes_append del: pipes.simps) blast?
  qed
qed

lemma Compiler_pipes:
  "arity_ok plan \<Longrightarrow>
     Compiler plan =
       Some (snd (pipes plan) @
         [if GetOutputSchema plan \<noteq> None then fst (pipes plan) @ [OutputTranslator]
          else fst (pipes plan)])"
  using MakePipelines_pipes [of plan "[]" "[]"]
  by (simp add: Compiler_def Add_def split: prod.splits)

lemma called_GenMainFunction:
  "concat (map called (function_body (GenMainFunction cg ops pipelines))) =
     GetSetupFn cg # map (GetPipelineName ops) pipelines @ [GetTeardownFn cg]"
proof -
  have "concat (map called (map (\<lambda>p. ExecCall (GetPipelineName ops p)) ps)) =
      map (GetPipelineName ops) ps" for ps
    by (induction ps) simp_all
  then show ?thesis
    by (simp add: GenMainFunction_body)
qed

text \<open>
  C5. For a plan whose nodes are distinct objects with the children the compiler reads:
  whenever the pipeline with index \<open>j\<close> holds a translator that reads the state built by
  a translator of the pipeline with index \<open>i\<close> (the top translator of an aggregate or
  order-by its bottom translator, the right translator of a hash join its left one), then
  \<open>i < j\<close>; and the main function calls setup, then the pipeline functions in the order
  of their indices, then teardown.
\<close>

theorem pipeline_dependencies_ordered:
  assumes "arity_ok plan" and "distinct_addrs plan"
  shows "\<exists>pipelines. Compiler plan = Some pipelines
    \<and> (\<forall>i < length pipelines. \<forall>j < length pipelines.
          depends_on (pipelines ! j) (pipelines ! i) \<longrightarrow> i < j)
    \<and> concat (map called (function_body (GenMainFunction cg ops pipelines))) =
          GetSetupFn cg # map (GetPipelineName ops) pipelines @ [GetTeardownFn cg]"
proof -
  define xs where "xs = fst (pipes plan)"
  define qs where "qs = snd (pipes plan)"
  define main where
    "main = (if GetOutputSchema plan \<noteq> None then xs @ [OutputTranslator] else xs)"
  define L where "L = qs @ [main]"
  have comp: "Compiler plan = Some L"
    using Compiler_pipes [OF assms(1)] by (simp add: L_def main_def xs_def qs_def)
  have em: "emitted plan = concat qs @ xs"
    by (simp add: emitted_def xs_def qs_def)
  have out: "OutputTranslator \<notin> set (concat qs @ xs)"
    using Output_not_emitted [OF assms(1)] em by simp
  have "distinct (concat qs @ xs)"
    using emitted_distinct [OF assms(1)] assms(2) em by (simp add: distinct_addrs_def)
  moreover have cL: "concat L = concat qs @ main"
    by (simp add: L_def)
  moreover have sm: "set main = set xs \<or> set main = insert OutputTranslator (set xs)"
    by (simp add: main_def)
  ultimately have dL: "distinct (concat L)"
    using out by (simp add: main_def)
  have sub: "set xs \<subseteq> set main"
    using sm by blast
  have ord: "i < j" if i: "i < length L" and j: "j < length L" and dep: "depends_on (L ! j) (L ! i)"
    for i j
  proof -
    from dep obtain t b where t: "t \<in> set (L ! j)" and b: "b \<in> set (L ! i)"
      and r: "reads_state_of t b"
      unfolding depends_on_def list_ex_iff by blast
    from r have "t \<noteq> OutputTranslator"
      by auto
    moreover have "L ! j \<in> set L"
      using j by simp
    then have "t \<in> set (concat L)"
      using t by auto
    ultimately have "t \<in> set (emitted plan)"
      using sm unfolding em cL by auto
    then have "precedes (qs @ [xs]) b t"
      using emitted_precedes [OF assms(1) _ r] by (simp add: xs_def qs_def)
    then have "precedes L b t"
      using sub unfolding L_def precedes_append by auto
    then have "\<exists>i j. i < j \<and> j < length L \<and> b \<in> set (L ! i) \<and> t \<in> set (L ! j)"
      by (rule precedes_index)
    then obtain i' j' where ij: "i' < j'" "j' < length L" "b \<in> set (L ! i')" "t \<in> set (L ! j')"
      by (elim exE conjE)
    have "i' = i"
      using distinct_concat_index [OF dL _ i ij(3) b] ij(1,2) by simp
    moreover have "j' = j"
      using distinct_concat_index [OF dL ij(2) j ij(4) t] .
    ultimately show ?thesis
      using ij(1) by simp
  qed
  show ?thesis
  proof (rule exI [of _ L], intro conjI allI impI)
    show "Compiler plan = Some L"
      by (rule comp)
    show "i < j" if "i < length L" "j < length L" "depends_on (L ! j) (L ! i)" for i j
      using that by (rule ord)
    show "concat (map called (function_body (GenMainFunction cg ops L))) =
        GetSetupFn cg # map (GetPipelineName ops) L @ [GetTeardownFn cg]"
      by (rule called_GenMainFunction)
  qed
qed

theorem pipeline_dependencies_ordered_witness:
  "arity_ok example_plan \<and> distinct_addrs example_plan
   \<and> (\<exists>pipelines. Compiler example_plan = Some pipelines
    \<and> (\<forall>i < length pipelines. \<forall>j < length pipelines.
          depends_on (pipelines ! j) (pipelines ! i) \<longrightarrow> i < j)
    \<and> concat (map called
          (function_body (GenMainFunction example_codegen example_ops pipelines))) =
          GetSetupFn example_codegen # map (GetPipelineName example_ops) pipelines
            @ [GetTeardownFn example_codegen])"
proof -
  have a: "arity_ok example_plan"
    by (simp add: example_plan_def)
  have d: "distinct_addrs example_plan"
    by (simp add: example_plan_def distinct_addrs_def)
  show ?thesis
    using a d pipeline_dependencies_ordered [OF a d, of example_codegen example_ops] by simp
qed

section \<open>Where the pipelines break\<close>

lemma together_append: "together (A @ B) ts = (together A ts \<or> together B ts)"
  by (simp add: together_def list_ex_iff) blast

lemma together_Cons: "together (p # L) ts = (set ts \<subseteq> set p \<or> together L ts)"
  by (auto simp: together_def list_all_iff)

lemma together_Nil: "together [] ts = False"
  by (simp add: together_def)

lemma breaks_at_append:
  "breaks_at (A @ B) ms b ts =
     (breaks_at A ms b ts \<or> breaks_at B ms b ts
      \<or> ((\<exists>p \<in> set A. p \<noteq> [] \<and> last p = b \<and> set ms \<subseteq> set p) \<and> together B ts))"
  by (induction A) (auto simp: together_append list_all_iff)

lemma together_mono:
  "together (Q @ [X]) ts \<Longrightarrow> together (A @ Q @ B @ (Y @ X @ Z) # C) ts"
  by (auto simp: together_append together_Cons together_Nil)

lemma breaks_at_mono:
  "breaks_at (Q @ [X]) ms b ts \<Longrightarrow> breaks_at (A @ Q @ B @ (Y @ X @ Z) # C) ms b ts"
  by (auto simp: breaks_at_append together_append together_Cons together_Nil)

lemma together_index:
  "together L ts \<Longrightarrow> \<exists>j < length L. set ts \<subseteq> set (L ! j)"
proof -
  assume "together L ts"
  then obtain p where "p \<in> set L" "set ts \<subseteq> set p"
    by (auto simp: together_def list_ex_iff list_all_iff)
  then show ?thesis
    by (metis in_set_conv_nth)
qed

lemma breaks_at_index:
  "breaks_at L ms b ts \<Longrightarrow>
     \<exists>i j. i < j \<and> j < length L \<and> L ! i \<noteq> [] \<and> last (L ! i) = b
        \<and> set ms \<subseteq> set (L ! i) \<and> set ts \<subseteq> set (L ! j)"
proof (induction L)
  case Nil
  then show ?case by simp
next
  case (Cons p L)
  from Cons.prems consider
      "p \<noteq> []" "last p = b" "set ms \<subseteq> set p" "together L ts"
    | "breaks_at L ms b ts"
    by (auto simp: list_all_iff)
  then show ?case
  proof cases
    case 1
    from together_index [OF 1(4)] obtain j where j: "j < length L" "set ts \<subseteq> set (L ! j)"
      by (elim exE conjE)
    show ?thesis
      by (rule exI [of _ 0], rule exI [of _ "Suc j"]) (use 1 j in simp)
  next
    case 2
    from Cons.IH [OF 2] obtain i j where ij: "i < j" "j < length L" "L ! i \<noteq> []"
      "last (L ! i) = b" "set ms \<subseteq> set (L ! i)" "set ts \<subseteq> set (L ! j)"
      by (elim exE conjE)
    show ?thesis
      by (rule exI [of _ "Suc i"], rule exI [of _ "Suc j"]) (use ij in simp)
  qed
qed

lemma pipes_root:
  "arity_ok op \<Longrightarrow> root_translator op \<in> set (fst (pipes op))"
  by (induction op rule: plan_induct)
     (simp_all add: pipes_cases root_translator_def del: pipes.simps)

lemma node_layout_mono:
  "node_layout (Q @ [X]) n \<Longrightarrow> node_layout (A @ Q @ B @ (Y @ X @ Z) # C) n"
  unfolding node_layout_def
  by (auto intro: breaks_at_mono together_mono split: if_splits)

lemma node_layout_mono_last:
  "node_layout (Q @ [X]) n \<Longrightarrow> node_layout (Q @ [X @ Z]) n"
  using node_layout_mono [of Q X n "[]" "[]" "[]" Z "[]"] by simp

lemma pipes_count:
  "arity_ok op \<Longrightarrow> length (snd (pipes op)) = length (filter is_breaker (visited op))"
  by (induction op rule: plan_induct)
     (auto simp add: pipes_cases is_breaker_def simp del: pipes.simps)

lemma pipes_layout:
  "arity_ok op \<Longrightarrow> n \<in> set (visited op) \<Longrightarrow>
     node_layout (snd (pipes op) @ [fst (pipes op)]) n"
proof (induction op rule: plan_induct)
  case (leaf a ty sch)
  then show ?case
    by (simp add: pipes_leaf node_layout_def together_Cons del: pipes.simps)
next
  case (regular a ty sch c0 cs)
  let ?op = "PlanNode a ty sch (c0 # cs)"
  from regular.prems regular.hyps(1-4) consider "n = ?op" | "n \<in> set (visited c0)"
    by auto
  then show ?case
  proof cases
    case 1
    then show ?thesis
      using regular.hyps(1-4) pipes_root [OF regular.hyps(5)]
      by (simp add: pipes_regular node_layout_def together_append together_Cons
            del: pipes.simps)
  next
    case 2
    then have "node_layout (snd (pipes c0) @ [fst (pipes c0)]) n"
      by (rule regular.IH)
    then show ?thesis
      using regular.hyps(1-4) node_layout_mono_last
      by (simp add: pipes_regular del: pipes.simps)
  qed
next
  case (breaker a ty sch c0 cs)
  let ?op = "PlanNode a ty sch (c0 # cs)"
  from breaker.prems breaker.hyps(1) consider "n = ?op" | "n \<in> set (visited c0)"
    by auto
  then show ?case
  proof cases
    case 1
    then show ?thesis
      using breaker.hyps(1) pipes_root [OF breaker.hyps(2)]
      by (auto simp add: pipes_breaker node_layout_def breaks_at_append together_Cons
            simp del: pipes.simps)
  next
    case 2
    then have "node_layout (snd (pipes c0) @ [fst (pipes c0)]) n"
      by (rule breaker.IH)
    then have "node_layout ([] @ snd (pipes c0) @ [] @ ([] @ fst (pipes c0) @ [BottomTranslator ?op])
        # [[TopTranslator ?op (BottomTranslator ?op)]]) n"
      by (rule node_layout_mono)
    then show ?thesis
      using breaker.hyps(1) by (simp add: pipes_breaker del: pipes.simps)
  qed
next
  case (hashjoin a sch c0 c1 cs)
  let ?op = "PlanNode a HASHJOIN sch (c0 # c1 # cs)"
  from hashjoin.prems consider "n = ?op" | "n \<in> set (visited c0)" | "n \<in> set (visited c1)"
    by auto
  then show ?case
  proof cases
    case 1
    then show ?thesis
      using pipes_root [OF hashjoin.hyps(1)] pipes_root [OF hashjoin.hyps(2)]
      by (auto simp add: pipes_hashjoin node_layout_def breaks_at_append together_Cons
            together_append simp del: pipes.simps)
  next
    case 2
    then have "node_layout (snd (pipes c0) @ [fst (pipes c0)]) n"
      by (rule hashjoin.IH(1))
    then have "node_layout ([] @ snd (pipes c0) @ [] @ ([] @ fst (pipes c0) @ [LeftTranslator ?op])
        # (snd (pipes c1) @ [fst (pipes c1) @ [RightTranslator ?op (LeftTranslator ?op)]])) n"
      by (rule node_layout_mono)
    then show ?thesis
      by (simp add: pipes_hashjoin del: pipes.simps)
  next
    case 3
    then have "node_layout (snd (pipes c1) @ [fst (pipes c1)]) n"
      by (rule hashjoin.IH(2))
    then have "node_layout ((snd (pipes c0) @ [fst (pipes c0) @ [LeftTranslator ?op]])
        @ snd (pipes c1) @ []
        @ ([] @ fst (pipes c1) @ [RightTranslator ?op (LeftTranslator ?op)]) # []) n"
      by (rule node_layout_mono)
    then show ?thesis
      by (simp add: pipes_hashjoin del: pipes.simps)
  qed
next
  case (nestloop a sch c0 c1 cs)
  let ?op = "PlanNode a NESTLOOP sch (c0 # c1 # cs)"
  from nestloop.prems consider "n = ?op" | "n \<in> set (visited c0)" | "n \<in> set (visited c1)"
    by auto
  then show ?case
  proof cases
    case 1
    then show ?thesis
      using pipes_root [OF nestloop.hyps(1)] pipes_root [OF nestloop.hyps(2)]
      by (auto simp add: pipes_nestloop node_layout_def together_Cons together_append
            simp del: pipes.simps)
  next
    case 2
    then have "node_layout (snd (pipes c0) @ [fst (pipes c0)]) n"
      by (rule nestloop.IH(1))
    then have "node_layout ([] @ snd (pipes c0) @ snd (pipes c1)
        @ ([] @ fst (pipes c0) @ ([LeftTranslator ?op] @ fst (pipes c1)
             @ [RightTranslator ?op (LeftTranslator ?op)])) # []) n"
      by (rule node_layout_mono)
    then show ?thesis
      by (simp add: pipes_nestloop del: pipes.simps)
  next
    case 3
    then have "node_layout (snd (pipes c1) @ [fst (pipes c1)]) n"
      by (rule nestloop.IH(2))
    then have "node_layout (snd (pipes c0) @ snd (pipes c1) @ []
        @ ((fst (pipes c0) @ [LeftTranslator ?op]) @ fst (pipes c1)
             @ [RightTranslator ?op (LeftTranslator ?op)]) # []) n"
      by (rule node_layout_mono)
    then show ?thesis
      by (simp add: pipes_nestloop del: pipes.simps)
  qed
qed

text \<open>
  C6. For a plan whose nodes have the children the compiler reads, and every node \<open>n\<close>
  that \<open>MakePipelines\<close> visits: there is one pipeline more than there are visited
  aggregate, order-by and hash-join nodes. If \<open>n\<close> is an aggregate or order-by, its
  bottom translator ends a pipeline that holds the child's translator, and its top
  translator lies in a pipeline with a higher index. If \<open>n\<close> is a hash join, its left
  translator ends a pipeline that holds the left child's translator, and the right
  child's translator and the right translator lie together in a pipeline with a higher
  index. If \<open>n\<close> is a nested-loop join, the translators of both children and its own
  two translators lie in one pipeline.
\<close>

theorem pipelines_split_at_breakers:
  assumes "arity_ok plan" and "n \<in> set (visited plan)"
  shows "\<exists>pipelines. Compiler plan = Some pipelines
    \<and> length pipelines = 1 + length (filter is_breaker (visited plan))
    \<and> (GetPlanNodeType n = AGGREGATE \<or> GetPlanNodeType n = ORDERBY \<longrightarrow>
         (\<exists>i j. i < j \<and> j < length pipelines
            \<and> pipelines ! i \<noteq> [] \<and> last (pipelines ! i) = BottomTranslator n
            \<and> root_translator (children n ! 0) \<in> set (pipelines ! i)
            \<and> TopTranslator n (BottomTranslator n) \<in> set (pipelines ! j)))
    \<and> (GetPlanNodeType n = HASHJOIN \<longrightarrow>
         (\<exists>i j. i < j \<and> j < length pipelines
            \<and> pipelines ! i \<noteq> [] \<and> last (pipelines ! i) = LeftTranslator n
            \<and> root_translator (children n ! 0) \<in> set (pipelines ! i)
            \<and> root_translator (children n ! 1) \<in> set (pipelines ! j)
            \<and> RightTranslator n (LeftTranslator n) \<in> set (pipelines ! j)))
    \<and> (GetPlanNodeType n = NESTLOOP \<longrightarrow>
         (\<exists>j < length pipelines.
            root_translator (children n ! 0) \<in> set (pipelines ! j)
            \<and> LeftTranslator n \<in> set (pipelines ! j)
            \<and> root_translator (children n ! 1) \<in> set (pipelines ! j)
            \<and> RightTranslator n (LeftTranslator n) \<in> set (pipelines ! j)))"
proof -
  define xs where "xs = fst (pipes plan)"
  define qs where "qs = snd (pipes plan)"
  define main where
    "main = (if GetOutputSchema plan \<noteq> None then xs @ [OutputTranslator] else xs)"
  define L where "L = qs @ [main]"
  have comp: "Compiler plan = Some L"
    using Compiler_pipes [OF assms(1)] by (simp add: L_def main_def xs_def qs_def)
  have len: "length L = 1 + length (filter is_breaker (visited plan))"
    using pipes_count [OF assms(1)] by (simp add: L_def qs_def)
  have "node_layout (qs @ [xs]) n"
    using pipes_layout [OF assms] by (simp add: xs_def qs_def)
  then have lay: "node_layout L n"
    using node_layout_mono_last [of qs xs n "[OutputTranslator]"] by (simp add: L_def main_def)
  have brk: "\<exists>i j. i < j \<and> j < length L
            \<and> L ! i \<noteq> [] \<and> last (L ! i) = BottomTranslator n
            \<and> root_translator (children n ! 0) \<in> set (L ! i)
            \<and> TopTranslator n (BottomTranslator n) \<in> set (L ! j)"
    if "GetPlanNodeType n = AGGREGATE \<or> GetPlanNodeType n = ORDERBY"
  proof -
    from lay that have "breaks_at L [root_translator (children n ! 0)] (BottomTranslator n)
         [TopTranslator n (BottomTranslator n)]"
      by (simp add: node_layout_def)
    from breaks_at_index [OF this] show ?thesis
      by simp
  qed
  have hj: "\<exists>i j. i < j \<and> j < length L
            \<and> L ! i \<noteq> [] \<and> last (L ! i) = LeftTranslator n
            \<and> root_translator (children n ! 0) \<in> set (L ! i)
            \<and> root_translator (children n ! 1) \<in> set (L ! j)
            \<and> RightTranslator n (LeftTranslator n) \<in> set (L ! j)"
    if "GetPlanNodeType n = HASHJOIN"
  proof -
    from lay that have "breaks_at L [root_translator (children n ! 0)] (LeftTranslator n)
         [root_translator (children n ! 1), RightTranslator n (LeftTranslator n)]"
      by (simp add: node_layout_def)
    from breaks_at_index [OF this] show ?thesis
      by simp
  qed
  have nl: "\<exists>j < length L.
            root_translator (children n ! 0) \<in> set (L ! j)
            \<and> LeftTranslator n \<in> set (L ! j)
            \<and> root_translator (children n ! 1) \<in> set (L ! j)
            \<and> RightTranslator n (LeftTranslator n) \<in> set (L ! j)"
    if "GetPlanNodeType n = NESTLOOP"
  proof -
    from lay that have "together L [root_translator (children n ! 0), LeftTranslator n,
         root_translator (children n ! 1), RightTranslator n (LeftTranslator n)]"
      by (simp add: node_layout_def)
    from together_index [OF this] show ?thesis
      by simp
  qed
  show ?thesis
    by (rule exI [of _ L], intro conjI impI) (fact comp len | erule brk hj nl)+
qed

theorem pipelines_split_at_breakers_witness:
  "arity_ok example_plan
   \<and> PlanNode 1 AGGREGATE None [PlanNode 2 SEQSCAN None []] \<in> set (visited example_plan)
   \<and> Compiler example_plan = Some
        [[RegularTranslator (PlanNode 2 SEQSCAN None []),
          BottomTranslator (PlanNode 1 AGGREGATE None [PlanNode 2 SEQSCAN None []])],
         [TopTranslator (PlanNode 1 AGGREGATE None [PlanNode 2 SEQSCAN None []])
            (BottomTranslator (PlanNode 1 AGGREGATE None [PlanNode 2 SEQSCAN None []])),
          LeftTranslator example_plan],
         [RegularTranslator (PlanNode 3 SEQSCAN None []),
          RightTranslator example_plan (LeftTranslator example_plan),
          OutputTranslator]]
   \<and> (\<exists>pipelines i j. Compiler example_plan = Some pipelines \<and> length pipelines = 3
        \<and> i < j \<and> j < length pipelines
        \<and> last (pipelines ! i) =
            BottomTranslator (PlanNode 1 AGGREGATE None [PlanNode 2 SEQSCAN None []])
        \<and> TopTranslator (PlanNode 1 AGGREGATE None [PlanNode 2 SEQSCAN None []])
            (BottomTranslator (PlanNode 1 AGGREGATE None [PlanNode 2 SEQSCAN None []]))
            \<in> set (pipelines ! j))"
proof -
  let ?agg = "PlanNode 1 AGGREGATE None [PlanNode 2 SEQSCAN None []]"
  have a: "arity_ok example_plan"
    by (simp add: example_plan_def)
  have v: "?agg \<in> set (visited example_plan)"
    by (simp add: example_plan_def)
  have c: "Compiler example_plan = Some
        [[RegularTranslator (PlanNode 2 SEQSCAN None []), BottomTranslator ?agg],
         [TopTranslator ?agg (BottomTranslator ?agg), LeftTranslator example_plan],
         [RegularTranslator (PlanNode 3 SEQSCAN None []),
          RightTranslator example_plan (LeftTranslator example_plan),
          OutputTranslator]]"
    by (simp add: example_plan_def Compiler_def Add_def CreateRegularTranslator_def
        CreateBottomTranslator_def CreateTopTranslator_def CreateLeftTranslator_def
        CreateRightTranslator_def Let_def)
  have n: "length (filter is_breaker (visited example_plan)) = 2"
    by (simp add: example_plan_def is_breaker_def)
  from pipelines_split_at_breakers [OF a v] n
  have "\<exists>pipelines i j. Compiler example_plan = Some pipelines \<and> length pipelines = 3
        \<and> i < j \<and> j < length pipelines
        \<and> last (pipelines ! i) = BottomTranslator ?agg
        \<and> TopTranslator ?agg (BottomTranslator ?agg) \<in> set (pipelines ! j)"
    by (elim exE conjE) (simp, metis)
  with a v c show ?thesis
    by simp
qed

section \<open>Range scans of the index\<close>

lemma fold_Insert_sorted_mset:
  "sorted (map fst index) \<Longrightarrow>
     sorted (map fst (fold (\<lambda>e index. Insert (fst e) (snd e) index) entries index))
     \<and> mset (fold (\<lambda>e index. Insert (fst e) (snd e) index) entries index)
         = mset entries + mset index"
proof (induction entries arbitrary: index)
  case Nil
  then show ?case by simp
next
  case (Cons e entries)
  have "sorted (map fst (Insert (fst e) (snd e) index))"
    using Cons.prems by (simp add: Insert_def sorted_insort_key)
  from Cons.IH [OF this] show ?case
    by (simp add: Insert_def)
qed

lemma populate_sorted: "sorted (map fst (populate entries))"
  using fold_Insert_sorted_mset [of "[]" entries] by (simp add: populate_def)

lemma populate_mset: "mset (populate entries) = mset entries"
  using fold_Insert_sorted_mset [of "[]" entries] by (simp add: populate_def)

text \<open>
  C2. For the index populated with any entries and any bounds: the ascending scan
  returns the slots of exactly the entries whose keys lie in [lo, hi], both bounds
  included, in ascending key order; the descending scan returns the same entries in
  descending key order; a limited scan returns at most \<open>n\<close> slots, and they are the
  first \<open>n\<close> of the full scan.
\<close>

theorem index_scans_sorted_range:
  fixes lo hi :: "'k::linorder"
  shows "\<exists>asc desc.
      ScanAscending lo hi (populate entries) = map snd asc
    \<and> ScanDescending lo hi (populate entries) = map snd desc
    \<and> mset asc = filter_mset (\<lambda>e. lo \<le> fst e \<and> fst e \<le> hi) (mset entries)
    \<and> mset desc = mset asc
    \<and> sorted (map fst asc)
    \<and> sorted (rev (map fst desc))
    \<and> length (ScanLimitAscending lo hi n (populate entries)) \<le> n
    \<and> length (ScanLimitDescending lo hi n (populate entries)) \<le> n
    \<and> ScanLimitAscending lo hi n (populate entries) = take n (map snd asc)
    \<and> ScanLimitDescending lo hi n (populate entries) = take n (map snd desc)"
proof -
  let ?P = "\<lambda>e :: 'k \<times> TupleSlot. lo \<le> fst e \<and> fst e \<le> hi"
  let ?asc = "filter ?P (populate entries)"
  let ?desc = "filter ?P (rev (populate entries))"
  have s: "sorted (map fst (populate entries))"
    by (rule populate_sorted)
  have a: "sorted (map fst ?asc)"
    using s by (rule sorted_filter)
  have "rev (map fst ?desc) = map fst ?asc"
    by (simp add: rev_map rev_filter)
  with a have d: "sorted (rev (map fst ?desc))"
    by simp
  have m: "mset ?asc = filter_mset ?P (mset entries)"
    by (simp add: populate_mset)
  have md: "mset ?desc = mset ?asc"
    by simp
  show ?thesis
    by (rule exI [of _ ?asc], rule exI [of _ ?desc])
       (use a d m md in \<open>simp add: ScanAscending_def ScanDescending_def
          ScanLimitAscending_def ScanLimitDescending_def\<close>)
qed

lemma even_keys_eq:
  "even_keys = [(0, (0, 0)), (2, (0, 2)), (4, (0, 4)), (6, (0, 6)), (8, (0, 8)), (10, (0, 10)),
     (12, (0, 12)), (14, (0, 14)), (16, (0, 16)), (18, (0, 18)), (20, (0, 20))]"
  by (simp add: even_keys_def populate_def Insert_def upt_conv_Cons)

text \<open>The scans of the index tests, on the theorem's index.\<close>

lemma even_keys_scans:
  "ScanAscending 8 12 even_keys = [(0, 8), (0, 10), (0, 12)]"
  "ScanAscending 7 13 even_keys = [(0, 8), (0, 10), (0, 12)]"
  "ScanDescending 8 12 even_keys = [(0, 12), (0, 10), (0, 8)]"
  "ScanLimitAscending 8 12 2 even_keys = [(0, 8), (0, 10)]"
  "ScanLimitDescending (-1) 5 2 even_keys = [(0, 4), (0, 2)]"
  by (simp_all add: even_keys_eq ScanAscending_def ScanDescending_def ScanLimitAscending_def
      ScanLimitDescending_def)

theorem index_scans_sorted_range_witness:
  "ScanAscending 8 12 even_keys = [(0, 8), (0, 10), (0, 12)]
   \<and> ScanAscending 7 13 even_keys = [(0, 8), (0, 10), (0, 12)]
   \<and> ScanDescending 8 12 even_keys = [(0, 12), (0, 10), (0, 8)]
   \<and> ScanLimitAscending 8 12 2 even_keys = [(0, 8), (0, 10)]
   \<and> ScanLimitDescending (-1) 5 2 even_keys = [(0, 4), (0, 2)]
   \<and> (\<exists>asc desc.
      ScanAscending 8 12 even_keys = map snd asc
    \<and> ScanDescending 8 12 even_keys = map snd desc
    \<and> mset asc = filter_mset (\<lambda>e. 8 \<le> fst e \<and> fst e \<le> 12)
          (mset (map (\<lambda>i. (2 * int i, (0, 2 * i))) [0 ..< 11]))
    \<and> mset desc = mset asc
    \<and> sorted (map fst asc)
    \<and> sorted (rev (map fst desc))
    \<and> length (ScanLimitAscending 8 12 2 even_keys) \<le> 2
    \<and> length (ScanLimitDescending 8 12 2 even_keys) \<le> 2
    \<and> ScanLimitAscending 8 12 2 even_keys = take 2 (map snd asc)
    \<and> ScanLimitDescending 8 12 2 even_keys = take 2 (map snd desc))"
  by (intro conjI even_keys_scans
      index_scans_sorted_range
        [of 8 12 "map (\<lambda>i. (2 * int i, (0, 2 * i))) [0 ..< 11]" 2, folded even_keys_def])

end
